theory Spec2Isabelle
  imports Complex_Main "HOL-Library.Word"
begin

section \<open>recorder.js: data model\<close>

text \<open>
  The module keeps its state in the variables declared at the top of the closure
  (\<^verbatim>\<open>recordRTC\<close>, \<^verbatim>\<open>stream\<close>, \<^verbatim>\<open>audioCtx\<close>, \<^verbatim>\<open>analyser\<close>, \<^verbatim>\<open>animFrame\<close>,
  \<^verbatim>\<open>blob\<close>, \<^verbatim>\<open>state\<close>, \<^verbatim>\<open>audioEl\<close>, \<^verbatim>\<open>bars\<close>) and talks to the browser:
  microphone streams, RecordRTC instances, audio contexts, object URLs, animation
  frames, \<^verbatim>\<open>alert\<close>, \<^verbatim>\<open>console\<close> and the \<^verbatim>\<open>onStateChange\<close> hook. Browser objects
  live in stores (lists indexed by the object's identity); a module variable holding
  such an object holds its index, \<open>None\<close> for \<^verbatim>\<open>null\<close>.

  JavaScript numbers are modelled by exact reals: the rounding of IEEE doubles is not
  part of the model. \<^verbatim>\<open>Math.floor(a / b)\<close> on natural numbers is \<open>a div b\<close>.
  The element lookups of \<^verbatim>\<open>init\<close> are taken as done: the controls and the bars
  exist, and the list of bars does not change.
\<close>

type_synonym byte = "8 word"

datatype rstate = Idle | Recording | Done

datatype error = NotAllowedError | NotFoundError | TypeError

text \<open>The two \<^verbatim>\<open>alert\<close> texts: microphone not accessible, and no recording found.\<close>

datatype notice = MicUnavailable | NoRecording

datatype label = LabelRecord | LabelStop | LabelRerecord

datatype glyph = GlyphPlay | GlyphPause

datatype display = DisplayNone | DisplayFlex

datatype logline = LogBlobReady nat string | LogMicDenied error

record blob =
  blob_data :: "byte list"
  blob_type :: string

definition blob_size :: "blob \<Rightarrow> nat" where
  "blob_size b = length (blob_data b)"

text \<open>
  A RecordRTC instance: the stream it was built on, whether it is recording, and what
  its \<^verbatim>\<open>getBlob()\<close> returns: \<^verbatim>\<open>null\<close> until its recording has been finalised.
\<close>

record recorder =
  rec_stream :: nat
  rec_active :: bool
  rec_blob :: "blob option"

record analyser_node =
  an_ctx :: nat
  an_source :: nat
  an_fftSize :: nat

definition frequencyBinCount :: "analyser_node \<Rightarrow> nat" where
  "frequencyBinCount a = an_fftSize a div 2"

text \<open>
  The closure of \<^verbatim>\<open>draw\<close> inside \<^verbatim>\<open>startVisualiser\<close>: the captured \<^verbatim>\<open>count\<close> and
  the captured \<^verbatim>\<open>dataArray\<close>, which is refilled on every frame.
\<close>

record draw_closure =
  cl_count :: nat
  cl_data :: "byte list"

record object_url =
  url_blob :: blob
  url_live :: bool

text \<open>An \<^verbatim>\<open>Audio\<close> element: its source URL, its \<^verbatim>\<open>paused\<close> flag and \<^verbatim>\<open>currentTime\<close>.\<close>

record audio =
  au_url :: nat
  au_paused :: bool
  au_time :: real

record ui =
  micBtn_recording :: bool
  micLabel :: label
  recWrapper_visible :: bool
  recDone_display :: display
  playBtn :: glyph

record state =
  recordRTC :: "nat option"
  stream :: "nat option"
  audioCtx :: "nat option"
  analyser :: "analyser_node option"
  animFrame :: "nat option"
  blob :: "blob option"
  rstate :: rstate
  audioEl :: "audio option"
  bars :: "real list"
  onStateChange :: "nat option"
  dom :: ui
  streams :: "bool list list"
  recorders :: "recorder list"
  contexts :: "bool list"
  urls :: "object_url list"
  scheduled :: "(nat \<times> draw_closure) list"
  next_frame :: nat
  pending_mic :: nat
  stopping :: "nat list"
  alerts :: "notice list"
  notified :: "(nat \<times> rstate) list"
  console :: "logline list"
  uncaught :: "error list"

text \<open>
  The fields after \<open>dom\<close> are the browser's side: \<open>streams\<close> gives for every
  MediaStream the liveness of each of its tracks, \<open>recorders\<close> the RecordRTC instances,
  \<open>contexts\<close> whether each AudioContext is still open, \<open>urls\<close> the object URLs,
  \<open>scheduled\<close> the animation frames requested and not yet run or cancelled,
  \<open>next_frame\<close> the last frame identifier handed out (identifiers start at 1),
  \<open>pending_mic\<close> the \<^verbatim>\<open>getUserMedia\<close> promises awaited by a \<^verbatim>\<open>toggle\<close>,
  \<open>stopping\<close> the RecordRTC instance of every \<^verbatim>\<open>stopRecording\<close> callback not yet
  called (an instance asked twice is there twice), \<open>notified\<close> the
  calls made to the \<^verbatim>\<open>onStateChange\<close> hook (which hook, with which argument), and
  \<open>uncaught\<close> the exceptions that left a handler.

  An operation that can throw returns \<open>Inl (e, s)\<close>: exception \<open>e\<close>, thrown in state \<open>s\<close>.
\<close>

type_synonym outcome = "error \<times> state + state"

text \<open>The number of \<^verbatim>\<open>stopRecording\<close> callbacks not yet called.\<close>

definition pending_stop :: "state \<Rightarrow> nat" where
  "pending_stop s = length (stopping s)"

section \<open>Visualiser\<close>

text \<open>Line 53: \<^verbatim>\<open>4 + (value / 255) * 48\<close>, in pixels.\<close>

definition bar_height :: "byte \<Rightarrow> real" where
  "bar_height v = 4 + (real (unat v) / 255) * 48"

text \<open>
  The same expression with every operation rounded by \<open>fl\<close>, as floating-point
  arithmetic does: \<open>bar_height\<close> is the case where nothing is rounded.
\<close>

definition bar_height_rounded :: "(real \<Rightarrow> real) \<Rightarrow> byte \<Rightarrow> real" where
  "bar_height_rounded fl v = fl (4 + fl (fl (real (unat v) / 255) * 48))"

text \<open>
  The \<^verbatim>\<open>for\<close> loop of \<^verbatim>\<open>draw\<close> (lines 50 to 54), from index \<open>i\<close> on. The source reads
  \<^verbatim>\<open>bars[i]\<close> with \<open>i < count = bars.length\<close>, so the update is always in range.
  A bin index outside the array (only possible for an empty array) reads
  \<^verbatim>\<open>undefined\<close>; the height is then \<^verbatim>\<open>NaNpx\<close>, which the style rejects, and the
  bar keeps its height.
\<close>

function draw_from :: "nat \<Rightarrow> nat \<Rightarrow> byte list \<Rightarrow> real list \<Rightarrow> real list" where
  "draw_from i count dataArray bs =
     (if i < count
      then draw_from (Suc i) count dataArray
             (let bin = i * length dataArray div count
              in if bin < length dataArray
                 then bs[i := bar_height (dataArray ! bin)]
                 else bs)
      else bs)"
  by pat_completeness auto
termination
  by (relation "measure (\<lambda>(i, count, dataArray, bs). count - i)") auto

declare draw_from.simps [simp del]

text \<open>
  \<^verbatim>\<open>analyser.getByteFrequencyData(dataArray)\<close>: the analyser's current magnitudes
  \<open>snap\<close> are copied into the array; magnitudes beyond the array are dropped, array
  cells beyond the magnitudes keep their content.
\<close>

definition getByteFrequencyData :: "byte list \<Rightarrow> byte list \<Rightarrow> byte list" where
  "getByteFrequencyData snap dataArray =
     take (length dataArray) snap @ drop (length snap) dataArray"

text \<open>\<^verbatim>\<open>requestAnimationFrame(draw)\<close>: a fresh identifier, and the frame is scheduled.\<close>

definition requestAnimationFrame :: "draw_closure \<Rightarrow> state \<Rightarrow> nat \<times> state" where
  "requestAnimationFrame cl s =
     (let fid = Suc (next_frame s)
      in (fid, s\<lparr>next_frame := fid, scheduled := scheduled s @ [(fid, cl)]\<rparr>))"

definition cancelAnimationFrame :: "nat \<Rightarrow> state \<Rightarrow> state" where
  "cancelAnimationFrame fid s = s\<lparr>scheduled := filter (\<lambda>p. fst p \<noteq> fid) (scheduled s)\<rparr>"

text \<open>
  \<^verbatim>\<open>draw\<close> (lines 48 to 56). \<^verbatim>\<open>analyser\<close> is the module variable, so a frame that runs
  after \<^verbatim>\<open>stopVisualiser\<close> finds \<^verbatim>\<open>null\<close> and throws before it changes anything.
\<close>

definition draw :: "draw_closure \<Rightarrow> byte list \<Rightarrow> state \<Rightarrow> outcome" where
  "draw cl snap s =
     (case analyser s of
        None \<Rightarrow> Inl (TypeError, s)
      | Some an \<Rightarrow>
          (let dataArray = getByteFrequencyData snap (cl_data cl);
               s1 = s\<lparr>bars := draw_from 0 (cl_count cl) dataArray (bars s)\<rparr>;
               (fid, s2) = requestAnimationFrame (cl\<lparr>cl_data := dataArray\<rparr>) s1
           in Inr (s2\<lparr>animFrame := Some fid\<rparr>)))"

text \<open>
  \<^verbatim>\<open>startVisualiser\<close> (lines 38 to 58). \<^verbatim>\<open>createMediaStreamSource(stream)\<close> throws
  on \<^verbatim>\<open>null\<close>, after \<^verbatim>\<open>audioCtx\<close> has been assigned.
\<close>

definition startVisualiser :: "byte list \<Rightarrow> state \<Rightarrow> outcome" where
  "startVisualiser snap s =
     (let c = length (contexts s);
          s1 = s\<lparr>contexts := contexts s @ [True], audioCtx := Some c\<rparr>
      in case stream s1 of
           None \<Rightarrow> Inl (TypeError, s1)
         | Some st \<Rightarrow>
             (let an = \<lparr>an_ctx = c, an_source = st, an_fftSize = 256\<rparr>;
                  s2 = s1\<lparr>analyser := Some an\<rparr>;
                  dataArray = replicate (frequencyBinCount an) 0;
                  count = length (bars s2)
              in draw \<lparr>cl_count = count, cl_data = dataArray\<rparr> snap s2))"

text \<open>
  \<^verbatim>\<open>stopVisualiser\<close> (lines 60 to 68). \<^verbatim>\<open>if (animFrame)\<close> is false for \<^verbatim>\<open>null\<close> and
  for 0.
\<close>

definition stopVisualiser :: "state \<Rightarrow> state" where
  "stopVisualiser s =
     (let s1 = (case animFrame s of
                  None \<Rightarrow> s
                | Some fid \<Rightarrow> if fid \<noteq> 0 then cancelAnimationFrame fid s else s);
          s2 = (case audioCtx s1 of
                  None \<Rightarrow> s1
                | Some c \<Rightarrow> s1\<lparr>contexts := (contexts s1)[c := False]\<rparr>)
      in s2\<lparr>animFrame := None, audioCtx := None, analyser := None,
             bars := map (\<lambda>b. 4) (bars s2)\<rparr>)"

section \<open>User interface and notifications\<close>

text \<open>\<^verbatim>\<open>setUI\<close> (lines 71 to 89), in the order of the source's branches.\<close>

definition setUI :: "rstate \<Rightarrow> state \<Rightarrow> state" where
  "setUI r s =
     (if r = Recording
      then s\<lparr>dom := (dom s)\<lparr>micBtn_recording := True, micLabel := LabelStop,
                              recWrapper_visible := True, recDone_display := DisplayNone\<rparr>\<rparr>
      else if r = Done
      then s\<lparr>dom := (dom s)\<lparr>micBtn_recording := False, micLabel := LabelRerecord,
                              recWrapper_visible := False, recDone_display := DisplayFlex\<rparr>\<rparr>
      else s\<lparr>dom := (dom s)\<lparr>micBtn_recording := False, micLabel := LabelRecord,
                              recWrapper_visible := False, recDone_display := DisplayNone\<rparr>\<rparr>)"

text \<open>
  \<^verbatim>\<open>if (window.Recorder.onStateChange) window.Recorder.onStateChange(r)\<close>. What the
  hook does is the caller's code; the model records that it was called.
\<close>

definition notify :: "rstate \<Rightarrow> state \<Rightarrow> state" where
  "notify r s =
     (case onStateChange s of
        None \<Rightarrow> s
      | Some h \<Rightarrow> s\<lparr>notified := notified s @ [(h, r)]\<rparr>)"

definition alert :: "notice \<Rightarrow> state \<Rightarrow> state" where
  "alert n s = s\<lparr>alerts := alerts s @ [n]\<rparr>"

section \<open>Recording\<close>

text \<open>\<^verbatim>\<open>stream.getTracks().forEach(t => t.stop())\<close> on the stream with identity \<open>st\<close>.\<close>

definition stop_tracks :: "nat \<Rightarrow> bool list list \<Rightarrow> bool list list" where
  "stop_tracks st ss = (if st < length ss then ss[st := map (\<lambda>t. False) (ss ! st)] else ss)"

text \<open>Lines 106 and 107: the clean-up of the microphone stream.\<close>

definition release_stream :: "state \<Rightarrow> state" where
  "release_stream s =
     (case stream s of
        None \<Rightarrow> s
      | Some st \<Rightarrow> s\<lparr>streams := stop_tracks st (streams s)\<rparr>)\<lparr>stream := None\<rparr>"

text \<open>
  \<^verbatim>\<open>recordRTC.stopRecording(callback)\<close>: the instance stops recording and keeps the
  callback until its recording is finalised.
\<close>

definition stopRecording :: "nat \<Rightarrow> state \<Rightarrow> state" where
  "stopRecording r s =
     s\<lparr>recorders := (if r < length (recorders s)
                      then (recorders s)[r := (recorders s ! r)\<lparr>rec_active := False\<rparr>]
                      else recorders s),
       stopping := stopping s @ [r]\<rparr>"

text \<open>\<^verbatim>\<open>navigator.mediaDevices.getUserMedia({ audio: true })\<close>, awaited.\<close>

definition getUserMedia :: "state \<Rightarrow> state" where
  "getUserMedia s = s\<lparr>pending_mic := Suc (pending_mic s)\<rparr>"

text \<open>
  \<^verbatim>\<open>Recorder.toggle\<close> up to the point where it returns or awaits (lines 96 to 119).
  Calling \<^verbatim>\<open>stopRecording\<close> on \<^verbatim>\<open>null\<close> throws.
\<close>

definition toggle :: "state \<Rightarrow> outcome" where
  "toggle s =
     (if rstate s = Recording
      then (case recordRTC s of
              None \<Rightarrow> Inl (TypeError, s)
            | Some r \<Rightarrow> Inr (stopRecording r s))
      else Inr (getUserMedia s))"

text \<open>
  The rest of \<^verbatim>\<open>Recorder.toggle\<close>, run when the awaited promise settles (lines 119 to
  136): \<open>Inl err\<close> is a rejection, caught by the \<^verbatim>\<open>catch\<close>; \<open>Inr st\<close> is the stream
  obtained. \<open>snap\<close> is what the new analyser delivers to the first \<^verbatim>\<open>draw\<close>.
\<close>

definition toggle_resume :: "error + nat \<Rightarrow> byte list \<Rightarrow> state \<Rightarrow> outcome" where
  "toggle_resume res snap s =
     (case res of
        Inl err \<Rightarrow> Inr (alert MicUnavailable (s\<lparr>console := console s @ [LogMicDenied err]\<rparr>))
      | Inr st \<Rightarrow>
          (let s1 = s\<lparr>stream := Some st\<rparr>;
               r = length (recorders s1);
               s2 = s1\<lparr>recorders := recorders s1 @ [\<lparr>rec_stream = st, rec_active = True,
                                                       rec_blob = None\<rparr>],
                       recordRTC := Some r\<rparr>
           in case startVisualiser snap s2 of
                Inl e \<Rightarrow> Inl e
              | Inr s3 \<Rightarrow> Inr (notify Recording (setUI Recording (s3\<lparr>rstate := Recording\<rparr>)))))"

text \<open>
  RecordRTC finalises the recording of instance \<open>r\<close> with the artifact \<open>b\<close>: from
  then on \<^verbatim>\<open>getBlob()\<close> of that instance returns \<open>b\<close>.
\<close>

definition finalise :: "nat \<Rightarrow> blob \<Rightarrow> state \<Rightarrow> state" where
  "finalise r b s =
     s\<lparr>recorders := (if r < length (recorders s)
                      then (recorders s)[r := (recorders s ! r)\<lparr>rec_blob := Some b\<rparr>]
                      else recorders s)\<rparr>"

text \<open>\<^verbatim>\<open>getBlob()\<close> of the RecordRTC instance \<open>r\<close>.\<close>

definition rtc_getBlob :: "nat \<Rightarrow> state \<Rightarrow> blob option" where
  "rtc_getBlob r s = (if r < length (recorders s) then rec_blob (recorders s ! r) else None)"

text \<open>
  The callback given to \<^verbatim>\<open>stopRecording\<close> (lines 101 to 113). Line 102 asks the
  instance that \<^verbatim>\<open>recordRTC\<close> holds when the callback runs, which need not be the
  instance that finished: calling \<^verbatim>\<open>getBlob\<close> on \<^verbatim>\<open>null\<close> throws, and when
  \<^verbatim>\<open>getBlob()\<close> returns \<^verbatim>\<open>null\<close> the variable \<^verbatim>\<open>blob\<close> is overwritten with it and
  \<^verbatim>\<open>blob.size\<close> of line 103 throws, before anything is released.
\<close>

definition stop_callback :: "state \<Rightarrow> outcome" where
  "stop_callback s =
     (case recordRTC s of
        None \<Rightarrow> Inl (TypeError, s)
      | Some r \<Rightarrow>
          (let s1 = s\<lparr>blob := rtc_getBlob r s\<rparr>
           in case blob s1 of
                None \<Rightarrow> Inl (TypeError, s1)
              | Some b \<Rightarrow>
                  (let s2 = s1\<lparr>console := console s1 @
                                 [LogBlobReady (blob_size b) (blob_type b)]\<rparr>;
                       s3 = release_stream s2;
                       s4 = stopVisualiser s3;
                       s5 = s4\<lparr>rstate := Done\<rparr>
                   in Inr (notify Done (setUI Done s5)))))"

text \<open>\<^verbatim>\<open>Recorder.getBlob\<close> (lines 173 to 175).\<close>

definition getBlob :: "state \<Rightarrow> blob option" where
  "getBlob s = blob s"

section \<open>Playback\<close>

text \<open>\<^verbatim>\<open>URL.createObjectURL(blob)\<close> and \<^verbatim>\<open>URL.revokeObjectURL(url)\<close>.\<close>

definition createObjectURL :: "blob \<Rightarrow> state \<Rightarrow> nat \<times> state" where
  "createObjectURL b s =
     (length (urls s), s\<lparr>urls := urls s @ [\<lparr>url_blob = b, url_live = True\<rparr>]\<rparr>)"

definition revokeObjectURL :: "nat \<Rightarrow> state \<Rightarrow> state" where
  "revokeObjectURL u s =
     s\<lparr>urls := (if u < length (urls s)
                 then (urls s)[u := (urls s ! u)\<lparr>url_live := False\<rparr>]
                 else urls s)\<rparr>"

text \<open>The \<^verbatim>\<open>onended\<close> handler installed by a fresh play (lines 163 to 167).\<close>

definition on_ended :: "nat \<Rightarrow> state \<Rightarrow> state" where
  "on_ended url s =
     (revokeObjectURL url (s\<lparr>dom := (dom s)\<lparr>playBtn := GlyphPlay\<rparr>\<rparr>))\<lparr>audioEl := None\<rparr>"

text \<open>The fresh-play branch (lines 160 to 169).\<close>

definition fresh_play :: "blob \<Rightarrow> state \<Rightarrow> state" where
  "fresh_play b s =
     (let (url, s1) = createObjectURL b s;
          s2 = s1\<lparr>audioEl := Some \<lparr>au_url = url, au_paused = False, au_time = 0\<rparr>\<rparr>
      in s2\<lparr>dom := (dom s2)\<lparr>playBtn := GlyphPause\<rparr>\<rparr>)"

text \<open>\<^verbatim>\<open>Recorder.play\<close> (lines 140 to 170), branch by branch.\<close>

definition play :: "state \<Rightarrow> state" where
  "play s =
     (case blob s of
        None \<Rightarrow> alert NoRecording s
      | Some b \<Rightarrow>
          if blob_size b = 0 then alert NoRecording s
          else (case audioEl s of
                  None \<Rightarrow> fresh_play b s
                | Some a \<Rightarrow>
                    if \<not> au_paused a
                    then s\<lparr>audioEl := Some (a\<lparr>au_paused := True\<rparr>),
                           dom := (dom s)\<lparr>playBtn := GlyphPlay\<rparr>\<rparr>
                    else if au_paused a \<and> 0 < au_time a
                    then s\<lparr>audioEl := Some (a\<lparr>au_paused := False\<rparr>),
                           dom := (dom s)\<lparr>playBtn := GlyphPause\<rparr>\<rparr>
                    else fresh_play b s))"

datatype pstate = Stopped | Playing | Paused

definition playback :: "state \<Rightarrow> pstate" where
  "playback s =
     (case audioEl s of
        None \<Rightarrow> Stopped
      | Some a \<Rightarrow> if au_paused a then Paused else Playing)"

section \<open>Events\<close>

text \<open>
  The page runs one handler at a time. An event is a call of the public interface or
  the browser running a continuation of the module: the awaited microphone promise
  settling, RecordRTC finalising the recording of an instance and calling the stop
  callback, an animation frame, the clip playing on, the clip ending. An event the
  browser cannot deliver in a state gives \<open>None\<close>.
\<close>

datatype event =
    Toggle
  | MicDenied error
  | MicGranted nat "byte list"
  | StopCompleted nat blob
  | Frame nat "byte list"
  | Play
  | Advance real
  | Ended
  | SetHook "nat option"

text \<open>An exception that leaves a handler is reported and the page goes on.\<close>

fun finish :: "outcome \<Rightarrow> state" where
  "finish (Inr s) = s"
| "finish (Inl (e, s)) = s\<lparr>uncaught := uncaught s @ [e]\<rparr>"

fun step :: "state \<Rightarrow> event \<Rightarrow> state option" where
  "step s Toggle = Some (finish (toggle s))"
| "step s (MicDenied err) =
     (if pending_mic s = 0 then None
      else Some (finish (toggle_resume (Inl err) [] (s\<lparr>pending_mic := pending_mic s - 1\<rparr>))))"
| "step s (MicGranted ntracks snap) =
     (if pending_mic s = 0 then None
      else Some (finish (toggle_resume (Inr (length (streams s))) snap
                   (s\<lparr>pending_mic := pending_mic s - 1,
                      streams := streams s @ [replicate ntracks True]\<rparr>))))"
| "step s (StopCompleted r b) =
     (if r \<in> set (stopping s)
      then Some (finish (stop_callback
                   (finalise r b (s\<lparr>stopping := remove1 r (stopping s)\<rparr>))))
      else None)"
| "step s (Frame fid snap) =
     (case map_of (scheduled s) fid of
        None \<Rightarrow> None
      | Some cl \<Rightarrow> Some (finish (draw cl snap (cancelAnimationFrame fid s))))"
| "step s Play = Some (play s)"
| "step s (Advance dt) =
     (case audioEl s of
        None \<Rightarrow> None
      | Some a \<Rightarrow>
          if \<not> au_paused a \<and> 0 < dt
          then Some (s\<lparr>audioEl := Some (a\<lparr>au_time := au_time a + dt\<rparr>)\<rparr>)
          else None)"
| "step s Ended =
     (case audioEl s of
        None \<Rightarrow> None
      | Some a \<Rightarrow>
          if \<not> au_paused a
          then Some (on_ended (au_url a) (s\<lparr>audioEl := Some (a\<lparr>au_paused := True\<rparr>)\<rparr>))
          else None)"
| "step s (SetHook h) = Some (s\<lparr>onStateChange := h\<rparr>)"

fun run :: "state \<Rightarrow> event list \<Rightarrow> state option" where
  "run s [] = Some s"
| "run s (e # es) = (case step s e of None \<Rightarrow> None | Some s' \<Rightarrow> run s' es)"

text \<open>
  The module at load time: the bars and the controls are as the page's markup has
  them, every variable has its initial value (lines 18 to 25 and 93).
\<close>

definition initial :: "real list \<Rightarrow> ui \<Rightarrow> state" where
  "initial bars0 dom0 =
     \<lparr>recordRTC = None, stream = None, audioCtx = None, analyser = None,
      animFrame = None, blob = None, rstate = Idle, audioEl = None, bars = bars0,
      onStateChange = None, dom = dom0, streams = [], recorders = [], contexts = [],
      urls = [], scheduled = [], next_frame = 0, pending_mic = 0, stopping = [],
      alerts = [], notified = [], console = [], uncaught = []\<rparr>"

inductive reachable :: "state \<Rightarrow> bool" where
  reachable_initial: "reachable (initial bars0 dom0)"
| reachable_step: "reachable s \<Longrightarrow> step s e = Some s' \<Longrightarrow> reachable s'"

section \<open>Reachable states\<close>

text \<open>
  What holds in every state the page can reach: while the state is \<^verbatim>\<open>recording\<close>
  (or a stop callback is pending) there is a RecordRTC instance; while it is
  \<^verbatim>\<open>recording\<close> there are a stream, an analyser and a scheduled frame; references
  point into their stores; frame identifiers are positive.
\<close>

definition consistent :: "state \<Rightarrow> bool" where
  "consistent s \<longleftrightarrow>
     (recordRTC s = None \<longrightarrow> rstate s \<noteq> Recording \<and> stopping s = []) \<and>
     (\<forall>r. recordRTC s = Some r \<longrightarrow> r < length (recorders s)) \<and>
     (rstate s = Recording \<longrightarrow>
        stream s \<noteq> None \<and> analyser s \<noteq> None \<and>
        (\<exists>f. animFrame s = Some f \<and> f \<in> fst ` set (scheduled s))) \<and>
     (\<forall>st. stream s = Some st \<longrightarrow> st < length (streams s)) \<and>
     (\<forall>f. animFrame s = Some f \<longrightarrow> 0 < f) \<and>
     (\<forall>a. audioEl s = Some a \<longrightarrow> au_url a < length (urls s))"

text \<open>
  What the specification says \<^verbatim>\<open>getArtifact()\<close> returns after a sequence of events:
  the artifact of the last recording that completed, none when no recording has
  completed.
\<close>

fun last_artifact :: "event list \<Rightarrow> blob option" where
  "last_artifact [] = None"
| "last_artifact (e # es) =
     (case last_artifact es of
        Some b \<Rightarrow> Some b
      | None \<Rightarrow> (case e of StopCompleted r b \<Rightarrow> Some b | _ \<Rightarrow> None))"

text \<open>
  Nothing is in flight: no microphone request is awaited and no stop callback is
  pending. A sequence of events is calm when every \<^verbatim>\<open>toggle\<close> in it is made with
  nothing in flight.
\<close>

definition settled :: "state \<Rightarrow> bool" where
  "settled s \<longleftrightarrow> pending_mic s = 0 \<and> stopping s = []"

fun calm :: "state \<Rightarrow> event list \<Rightarrow> bool" where
  "calm s [] = True"
| "calm s (e # es) =
     ((case e of Toggle \<Rightarrow> settled s | _ \<Rightarrow> True) \<and>
      (case step s e of None \<Rightarrow> True | Some s' \<Rightarrow> calm s' es))"

text \<open>
  Every pending stop callback belongs to the instance that \<^verbatim>\<open>recordRTC\<close> holds, and
  no microphone request is awaited while one is pending.
\<close>

definition aligned :: "state \<Rightarrow> bool" where
  "aligned s \<longleftrightarrow>
     (\<forall>r \<in> set (stopping s). recordRTC s = Some r) \<and>
     (stopping s \<noteq> [] \<longrightarrow> pending_mic s = 0)"

section \<open>A page with two bars\<close>

text \<open>
  A page whose visualiser has two bars, the clip it records, an empty clip, and two
  states it reaches: recording (hook 7 installed), and done with that clip.
\<close>

definition page :: state where
  "page = initial [30, 12]
     \<lparr>micBtn_recording = False, micLabel = LabelRecord, recWrapper_visible = False,
      recDone_display = DisplayNone, playBtn = GlyphPlay\<rparr>"

definition clip :: blob where
  "clip = \<lparr>blob_data = [26, 69, 223, 163], blob_type = ''audio/webm''\<rparr>"

definition silence :: blob where
  "silence = \<lparr>blob_data = [], blob_type = ''audio/webm''\<rparr>"

definition recording_page :: state where
  "recording_page =
     \<lparr>recordRTC = Some 0, stream = Some 0, audioCtx = Some 0,
      analyser = Some \<lparr>an_ctx = 0, an_source = 0, an_fftSize = 256\<rparr>,
      animFrame = Some 1, blob = None, rstate = Recording, audioEl = None,
      bars = [4, 4], onStateChange = Some 7,
      dom = \<lparr>micBtn_recording = True, micLabel = LabelStop, recWrapper_visible = True,
             recDone_display = DisplayNone, playBtn = GlyphPlay\<rparr>,
      streams = [[True]],
      recorders = [\<lparr>rec_stream = 0, rec_active = True, rec_blob = None\<rparr>],
      contexts = [True], urls = [],
      scheduled = [(1, \<lparr>cl_count = 2, cl_data = replicate 128 0\<rparr>)],
      next_frame = 1, pending_mic = 0, stopping = [], alerts = [],
      notified = [(7, Recording)], console = [], uncaught = []\<rparr>"

definition done_page :: state where
  "done_page =
     \<lparr>recordRTC = Some 0, stream = None, audioCtx = None, analyser = None,
      animFrame = None, blob = Some clip, rstate = Done, audioEl = None,
      bars = [4, 4], onStateChange = Some 7,
      dom = \<lparr>micBtn_recording = False, micLabel = LabelRerecord,
             recWrapper_visible = False, recDone_display = DisplayFlex,
             playBtn = GlyphPlay\<rparr>,
      streams = [[False]],
      recorders = [\<lparr>rec_stream = 0, rec_active = False, rec_blob = Some clip\<rparr>],
      contexts = [False], urls = [], scheduled = [], next_frame = 1, pending_mic = 0,
      stopping = [], alerts = [], notified = [(7, Recording), (7, Done)],
      console = [LogBlobReady 4 ''audio/webm''], uncaught = []\<rparr>"

section \<open>Field by field\<close>

lemma setUI_fields [simp]:
  "recordRTC (setUI r s) = recordRTC s"
  "stream (setUI r s) = stream s"
  "audioCtx (setUI r s) = audioCtx s"
  "analyser (setUI r s) = analyser s"
  "animFrame (setUI r s) = animFrame s"
  "blob (setUI r s) = blob s"
  "rstate (setUI r s) = rstate s"
  "audioEl (setUI r s) = audioEl s"
  "bars (setUI r s) = bars s"
  "onStateChange (setUI r s) = onStateChange s"
  "streams (setUI r s) = streams s"
  "recorders (setUI r s) = recorders s"
  "contexts (setUI r s) = contexts s"
  "urls (setUI r s) = urls s"
  "scheduled (setUI r s) = scheduled s"
  "next_frame (setUI r s) = next_frame s"
  "pending_mic (setUI r s) = pending_mic s"
  "stopping (setUI r s) = stopping s"
  "alerts (setUI r s) = alerts s"
  "notified (setUI r s) = notified s"
  "console (setUI r s) = console s"
  "uncaught (setUI r s) = uncaught s"
  by (simp_all add: setUI_def)

lemma notify_fields [simp]:
  "recordRTC (notify r s) = recordRTC s"
  "stream (notify r s) = stream s"
  "audioCtx (notify r s) = audioCtx s"
  "analyser (notify r s) = analyser s"
  "animFrame (notify r s) = animFrame s"
  "blob (notify r s) = blob s"
  "rstate (notify r s) = rstate s"
  "audioEl (notify r s) = audioEl s"
  "bars (notify r s) = bars s"
  "onStateChange (notify r s) = onStateChange s"
  "state.dom (notify r s) = state.dom s"
  "streams (notify r s) = streams s"
  "recorders (notify r s) = recorders s"
  "contexts (notify r s) = contexts s"
  "urls (notify r s) = urls s"
  "scheduled (notify r s) = scheduled s"
  "next_frame (notify r s) = next_frame s"
  "pending_mic (notify r s) = pending_mic s"
  "stopping (notify r s) = stopping s"
  "alerts (notify r s) = alerts s"
  "console (notify r s) = console s"
  "uncaught (notify r s) = uncaught s"
  "notified (notify r s) = (case onStateChange s of None \<Rightarrow> notified s | Some h \<Rightarrow> notified s @ [(h, r)])"
  by (simp_all add: notify_def split: option.splits)

lemma alert_fields [simp]:
  "recordRTC (alert n s) = recordRTC s"
  "stream (alert n s) = stream s"
  "audioCtx (alert n s) = audioCtx s"
  "analyser (alert n s) = analyser s"
  "animFrame (alert n s) = animFrame s"
  "blob (alert n s) = blob s"
  "rstate (alert n s) = rstate s"
  "audioEl (alert n s) = audioEl s"
  "bars (alert n s) = bars s"
  "onStateChange (alert n s) = onStateChange s"
  "state.dom (alert n s) = state.dom s"
  "streams (alert n s) = streams s"
  "recorders (alert n s) = recorders s"
  "contexts (alert n s) = contexts s"
  "urls (alert n s) = urls s"
  "scheduled (alert n s) = scheduled s"
  "next_frame (alert n s) = next_frame s"
  "pending_mic (alert n s) = pending_mic s"
  "stopping (alert n s) = stopping s"
  "notified (alert n s) = notified s"
  "console (alert n s) = console s"
  "uncaught (alert n s) = uncaught s"
  "alerts (alert n s) = alerts s @ [n]"
  by (simp_all add: alert_def)

lemma release_stream_fields [simp]:
  "recordRTC (release_stream s) = recordRTC s"
  "audioCtx (release_stream s) = audioCtx s"
  "analyser (release_stream s) = analyser s"
  "animFrame (release_stream s) = animFrame s"
  "blob (release_stream s) = blob s"
  "rstate (release_stream s) = rstate s"
  "audioEl (release_stream s) = audioEl s"
  "bars (release_stream s) = bars s"
  "onStateChange (release_stream s) = onStateChange s"
  "state.dom (release_stream s) = state.dom s"
  "recorders (release_stream s) = recorders s"
  "contexts (release_stream s) = contexts s"
  "urls (release_stream s) = urls s"
  "scheduled (release_stream s) = scheduled s"
  "next_frame (release_stream s) = next_frame s"
  "pending_mic (release_stream s) = pending_mic s"
  "stopping (release_stream s) = stopping s"
  "alerts (release_stream s) = alerts s"
  "notified (release_stream s) = notified s"
  "console (release_stream s) = console s"
  "uncaught (release_stream s) = uncaught s"
  "stream (release_stream s) = None"
  "streams (release_stream s) = (case stream s of None \<Rightarrow> streams s | Some st \<Rightarrow> stop_tracks st (streams s))"
  by (simp_all add: release_stream_def split: option.splits)

lemma stopVisualiser_fields [simp]:
  "recordRTC (stopVisualiser s) = recordRTC s"
  "stream (stopVisualiser s) = stream s"
  "blob (stopVisualiser s) = blob s"
  "rstate (stopVisualiser s) = rstate s"
  "audioEl (stopVisualiser s) = audioEl s"
  "onStateChange (stopVisualiser s) = onStateChange s"
  "state.dom (stopVisualiser s) = state.dom s"
  "streams (stopVisualiser s) = streams s"
  "recorders (stopVisualiser s) = recorders s"
  "urls (stopVisualiser s) = urls s"
  "next_frame (stopVisualiser s) = next_frame s"
  "pending_mic (stopVisualiser s) = pending_mic s"
  "stopping (stopVisualiser s) = stopping s"
  "alerts (stopVisualiser s) = alerts s"
  "notified (stopVisualiser s) = notified s"
  "console (stopVisualiser s) = console s"
  "uncaught (stopVisualiser s) = uncaught s"
  "animFrame (stopVisualiser s) = None"
  "audioCtx (stopVisualiser s) = None"
  "analyser (stopVisualiser s) = None"
  "bars (stopVisualiser s) = map (\<lambda>b. 4) (bars s)"
  "scheduled (stopVisualiser s) = (case animFrame s of None \<Rightarrow> scheduled s | Some fid \<Rightarrow> if fid \<noteq> 0 then filter (\<lambda>p. fst p \<noteq> fid) (scheduled s) else scheduled s)"
  "contexts (stopVisualiser s) = (case audioCtx s of None \<Rightarrow> contexts s | Some c \<Rightarrow> (contexts s)[c := False])"
  by (simp_all add: stopVisualiser_def cancelAnimationFrame_def Let_def split: option.splits)

lemma step_Toggle:
  "step s Toggle = Some s' \<Longrightarrow>
     recordRTC s' = recordRTC s \<and> rstate s' = rstate s \<and> stream s' = stream s \<and>
     streams s' = streams s \<and> analyser s' = analyser s \<and> animFrame s' = animFrame s \<and>
     scheduled s' = scheduled s \<and> audioEl s' = audioEl s \<and> urls s' = urls s \<and>
     blob s' = blob s \<and> length (recorders s') = length (recorders s) \<and>
     stopping s' = (if rstate s = Recording
                    then (case recordRTC s of None \<Rightarrow> stopping s | Some r \<Rightarrow> stopping s @ [r])
                    else stopping s) \<and>
     pending_mic s' = (if rstate s = Recording then pending_mic s else Suc (pending_mic s))"
  by (auto simp: toggle_def stopRecording_def getUserMedia_def split: option.splits)

lemma step_MicDenied:
  "step s (MicDenied err) = Some s' \<Longrightarrow>
     recordRTC s' = recordRTC s \<and> rstate s' = rstate s \<and> stream s' = stream s \<and>
     streams s' = streams s \<and> analyser s' = analyser s \<and> animFrame s' = animFrame s \<and>
     scheduled s' = scheduled s \<and> audioEl s' = audioEl s \<and> urls s' = urls s \<and>
     blob s' = blob s \<and> stopping s' = stopping s \<and> recorders s' = recorders s \<and>
     0 < pending_mic s \<and> pending_mic s' = pending_mic s - 1"
  by (auto simp: toggle_resume_def alert_def split: if_splits)

lemma step_MicGranted:
  "step s (MicGranted n snap) = Some s' \<Longrightarrow>
     recordRTC s' = Some (length (recorders s)) \<and> rstate s' = Recording \<and>
     stream s' = Some (length (streams s)) \<and>
     streams s' = streams s @ [replicate n True] \<and>
     analyser s' = Some \<lparr>an_ctx = length (contexts s), an_source = length (streams s),
                          an_fftSize = 256\<rparr> \<and>
     animFrame s' = Some (Suc (next_frame s)) \<and>
     Suc (next_frame s) \<in> fst ` set (scheduled s') \<and>
     audioEl s' = audioEl s \<and> urls s' = urls s \<and>
     blob s' = blob s \<and> stopping s' = stopping s \<and>
     length (recorders s') = Suc (length (recorders s)) \<and>
     0 < pending_mic s \<and> pending_mic s' = pending_mic s - 1"
  by (auto simp: toggle_resume_def startVisualiser_def draw_def requestAnimationFrame_def
      notify_def setUI_def Let_def split: if_splits option.splits)

lemma finalise_fields [simp]:
  "recordRTC (finalise r b s) = recordRTC s"
  "stream (finalise r b s) = stream s"
  "streams (finalise r b s) = streams s"
  "audioCtx (finalise r b s) = audioCtx s"
  "analyser (finalise r b s) = analyser s"
  "animFrame (finalise r b s) = animFrame s"
  "blob (finalise r b s) = blob s"
  "rstate (finalise r b s) = rstate s"
  "audioEl (finalise r b s) = audioEl s"
  "bars (finalise r b s) = bars s"
  "onStateChange (finalise r b s) = onStateChange s"
  "urls (finalise r b s) = urls s"
  "scheduled (finalise r b s) = scheduled s"
  "contexts (finalise r b s) = contexts s"
  "stopping (finalise r b s) = stopping s"
  "pending_mic (finalise r b s) = pending_mic s"
  "notified (finalise r b s) = notified s"
  "uncaught (finalise r b s) = uncaught s"
  "console (finalise r b s) = console s"
  "alerts (finalise r b s) = alerts s"
  "length (recorders (finalise r b s)) = length (recorders s)"
  by (simp_all add: finalise_def)

lemma rtc_getBlob_finalise:
  "r < length (recorders s) \<Longrightarrow> rtc_getBlob r (finalise r b s) = Some b"
  by (simp add: rtc_getBlob_def finalise_def)

lemma rtc_getBlob_stopping [simp]:
  "rtc_getBlob c (s\<lparr>stopping := xs\<rparr>) = rtc_getBlob c s"
  by (simp add: rtc_getBlob_def)

text \<open>
  The stop callback, by what \<^verbatim>\<open>getBlob()\<close> of the current instance returns: with no
  Blob it overwrites \<^verbatim>\<open>blob\<close>, throws, and leaves everything else as it was; with a
  Blob it tears the recording down.
\<close>

lemma stop_callback_null:
  assumes "recordRTC s = Some c" and "rtc_getBlob c s = None"
  shows "stop_callback s = Inl (TypeError, s\<lparr>blob := None\<rparr>)"
  using assms by (simp add: stop_callback_def Let_def)

lemma stop_callback_blob:
  assumes "recordRTC s = Some c" and "rtc_getBlob c s = Some b"
  shows "stop_callback s =
     Inr (notify Done (setUI Done ((stopVisualiser (release_stream
            (s\<lparr>blob := Some b,
                console := console s @ [LogBlobReady (blob_size b) (blob_type b)]\<rparr>)))
            \<lparr>rstate := Done\<rparr>)))"
  using assms by (simp add: stop_callback_def Let_def)

lemma step_StopCompleted:
  assumes "step s (StopCompleted r b) = Some s'"
  shows "recordRTC s' = recordRTC s \<and> length (recorders s') = length (recorders s) \<and>
     length (streams s') = length (streams s) \<and>
     audioEl s' = audioEl s \<and> urls s' = urls s \<and> pending_mic s' = pending_mic s \<and>
     r \<in> set (stopping s) \<and> stopping s' = remove1 r (stopping s) \<and>
     (recordRTC s = None \<longrightarrow>
        blob s' = blob s \<and> rstate s' = rstate s \<and> stream s' = stream s \<and>
        analyser s' = analyser s \<and> animFrame s' = animFrame s \<and>
        scheduled s' = scheduled s) \<and>
     (\<forall>c. recordRTC s = Some c \<longrightarrow>
        blob s' = rtc_getBlob c (finalise r b s) \<and>
        (rtc_getBlob c (finalise r b s) = None \<longrightarrow>
           rstate s' = rstate s \<and> stream s' = stream s \<and> analyser s' = analyser s \<and>
           animFrame s' = animFrame s \<and> scheduled s' = scheduled s) \<and>
        (rtc_getBlob c (finalise r b s) \<noteq> None \<longrightarrow>
           rstate s' = Done \<and> stream s' = None \<and> animFrame s' = None))"
proof -
  let ?t = "finalise r b (s\<lparr>stopping := remove1 r (stopping s)\<rparr>)"
  from assms have r: "r \<in> set (stopping s)" and s': "s' = finish (stop_callback ?t)"
    by (simp_all split: if_splits)
  have g: "rtc_getBlob c ?t = rtc_getBlob c (finalise r b s)" for c
    by (simp add: rtc_getBlob_def finalise_def)
  show ?thesis
  proof (cases "recordRTC s")
    case None
    then have "stop_callback ?t = Inl (TypeError, ?t)" by (simp add: stop_callback_def)
    with None r show ?thesis by (simp add: s')
  next
    case (Some c)
    show ?thesis
    proof (cases "rtc_getBlob c (finalise r b s)")
      case None
      with Some g have "stop_callback ?t = Inl (TypeError, ?t\<lparr>blob := None\<rparr>)"
        by (intro stop_callback_null) simp_all
      with Some None r show ?thesis by (simp add: s')
    next
      case (Some b')
      with \<open>recordRTC s = Some c\<close> g have "stop_callback ?t =
          Inr (notify Done (setUI Done ((stopVisualiser (release_stream
            (?t\<lparr>blob := Some b',
                 console := console ?t @ [LogBlobReady (blob_size b') (blob_type b')]\<rparr>)))
            \<lparr>rstate := Done\<rparr>)))"
        by (intro stop_callback_blob) simp_all
      with \<open>recordRTC s = Some c\<close> Some r show ?thesis
        by (cases "stream s") (simp_all add: s' stop_tracks_def)
    qed
  qed
qed

lemma step_Frame:
  "step s (Frame fid snap) = Some s' \<Longrightarrow>
     recordRTC s' = recordRTC s \<and> rstate s' = rstate s \<and> stream s' = stream s \<and>
     streams s' = streams s \<and> analyser s' = analyser s \<and>
     audioEl s' = audioEl s \<and> urls s' = urls s \<and>
     blob s' = blob s \<and> stopping s' = stopping s \<and> recorders s' = recorders s \<and>
     pending_mic s' = pending_mic s \<and>
     (analyser s = None \<longrightarrow> animFrame s' = animFrame s) \<and>
     (analyser s \<noteq> None \<longrightarrow>
        animFrame s' = Some (Suc (next_frame s)) \<and>
        Suc (next_frame s) \<in> fst ` set (scheduled s'))"
  by (auto simp: draw_def requestAnimationFrame_def cancelAnimationFrame_def Let_def
      split: if_splits option.splits)

lemma step_Play:
  "step s Play = Some s' \<Longrightarrow>
     recordRTC s' = recordRTC s \<and> rstate s' = rstate s \<and> stream s' = stream s \<and>
     streams s' = streams s \<and> analyser s' = analyser s \<and> animFrame s' = animFrame s \<and>
     scheduled s' = scheduled s \<and> blob s' = blob s \<and> stopping s' = stopping s \<and>
     recorders s' = recorders s \<and> pending_mic s' = pending_mic s \<and>
     ((\<forall>a. audioEl s = Some a \<longrightarrow> au_url a < length (urls s)) \<longrightarrow>
      (\<forall>a. audioEl s' = Some a \<longrightarrow> au_url a < length (urls s')))"
  by (auto simp: play_def fresh_play_def createObjectURL_def alert_def
      split: if_splits option.splits)

lemma step_Advance:
  "step s (Advance dt) = Some s' \<Longrightarrow>
     recordRTC s' = recordRTC s \<and> rstate s' = rstate s \<and> stream s' = stream s \<and>
     streams s' = streams s \<and> analyser s' = analyser s \<and> animFrame s' = animFrame s \<and>
     scheduled s' = scheduled s \<and> blob s' = blob s \<and> stopping s' = stopping s \<and>
     recorders s' = recorders s \<and> pending_mic s' = pending_mic s \<and>
     urls s' = urls s \<and>
     (\<forall>a'. audioEl s' = Some a' \<longrightarrow> (\<exists>a. audioEl s = Some a \<and> au_url a' = au_url a))"
  by (auto split: if_splits option.splits)

lemma step_Ended:
  "step s Ended = Some s' \<Longrightarrow>
     recordRTC s' = recordRTC s \<and> rstate s' = rstate s \<and> stream s' = stream s \<and>
     streams s' = streams s \<and> analyser s' = analyser s \<and> animFrame s' = animFrame s \<and>
     scheduled s' = scheduled s \<and> blob s' = blob s \<and> stopping s' = stopping s \<and>
     recorders s' = recorders s \<and> pending_mic s' = pending_mic s \<and>
     audioEl s' = None"
  by (auto simp: on_ended_def revokeObjectURL_def split: if_splits option.splits)

lemma step_SetHook:
  "step s (SetHook h) = Some s' \<Longrightarrow>
     recordRTC s' = recordRTC s \<and> rstate s' = rstate s \<and> stream s' = stream s \<and>
     streams s' = streams s \<and> analyser s' = analyser s \<and> animFrame s' = animFrame s \<and>
     scheduled s' = scheduled s \<and> blob s' = blob s \<and> stopping s' = stopping s \<and>
     recorders s' = recorders s \<and> pending_mic s' = pending_mic s \<and>
     audioEl s' = audioEl s \<and> urls s' = urls s"
  by auto

section \<open>Every reachable state is consistent\<close>

lemma consistent_initial: "consistent (initial bars0 dom0)"
  by (simp add: consistent_def initial_def)

lemma consistent_step:
  assumes c: "consistent s" and st: "step s e = Some s'"
  shows "consistent s'"
proof (cases e)
  case Toggle
  from st [unfolded Toggle, THEN step_Toggle] c show ?thesis
    by (auto simp: consistent_def)
next
  case (MicDenied err)
  from st [unfolded MicDenied, THEN step_MicDenied] c show ?thesis
    by (auto simp: consistent_def)
next
  case (MicGranted n snap)
  from st [unfolded MicGranted, THEN step_MicGranted] c show ?thesis
    by (auto simp: consistent_def)
next
  case (StopCompleted r b)
  note f = st [unfolded StopCompleted, THEN step_StopCompleted]
  from f c obtain cur where cur: "recordRTC s = Some cur"
    by (cases "recordRTC s") (auto simp: consistent_def)
  show ?thesis
  proof (cases "rtc_getBlob cur (finalise r b s)")
    case None
    with f cur have "recordRTC s' = recordRTC s" "rstate s' = rstate s" "stream s' = stream s"
      "analyser s' = analyser s" "animFrame s' = animFrame s" "scheduled s' = scheduled s"
      "length (recorders s') = length (recorders s)" "length (streams s') = length (streams s)"
      "audioEl s' = audioEl s" "urls s' = urls s"
      by simp_all
    with c cur show ?thesis by (simp add: consistent_def)
  next
    case (Some b')
    with f cur have "recordRTC s' = recordRTC s" "rstate s' = Done" "stream s' = None"
      "animFrame s' = None"
      "length (recorders s') = length (recorders s)" "length (streams s') = length (streams s)"
      "audioEl s' = audioEl s" "urls s' = urls s"
      by simp_all
    with c cur show ?thesis by (simp add: consistent_def)
  qed
next
  case (Frame fid snap)
  from st [unfolded Frame, THEN step_Frame] c show ?thesis
    by (auto simp: consistent_def)
next
  case Play
  from st [unfolded Play, THEN step_Play] c show ?thesis
    by (auto simp: consistent_def)
next
  case (Advance dt)
  from st [unfolded Advance, THEN step_Advance] c show ?thesis
    by (auto simp: consistent_def)
next
  case Ended
  from st [unfolded Ended, THEN step_Ended] c show ?thesis
    by (auto simp: consistent_def)
next
  case (SetHook h)
  from st [unfolded SetHook, THEN step_SetHook] c show ?thesis
    by (auto simp: consistent_def)
qed

lemma reachable_consistent: "reachable s \<Longrightarrow> consistent s"
  by (induction rule: reachable.induct) (auto intro: consistent_initial consistent_step)

lemma run_reachable: "reachable s \<Longrightarrow> run s es = Some s' \<Longrightarrow> reachable s'"
  by (induction es arbitrary: s) (auto intro: reachable_step split: option.splits)

section \<open>The concrete states are reachable\<close>

lemmas eval_defs = page_def clip_def silence_def initial_def toggle_def toggle_resume_def
  stop_callback_def finalise_def rtc_getBlob_def pending_stop_def settled_def
  startVisualiser_def stopVisualiser_def draw_def
  requestAnimationFrame_def cancelAnimationFrame_def release_stream_def stopRecording_def
  getUserMedia_def notify_def setUI_def alert_def play_def fresh_play_def
  createObjectURL_def revokeObjectURL_def on_ended_def getByteFrequencyData_def
  frequencyBinCount_def stop_tracks_def blob_size_def Let_def draw_from.simps
  bar_height_def playback_def getBlob_def

lemma reachable_page: "reachable page"
  unfolding page_def by (rule reachable_initial)

lemma run_recording_page:
  "run page [SetHook (Some 7), Toggle, MicGranted 1 []] = Some recording_page"
  by (simp add: eval_defs recording_page_def)

lemma reachable_recording_page: "reachable recording_page"
  using reachable_page run_recording_page by (rule run_reachable)

lemma reachable_stopping: "reachable (stopRecording 0 recording_page)"
proof -
  have "step recording_page Toggle = Some (stopRecording 0 recording_page)"
    by (simp add: toggle_def recording_page_def)
  with reachable_recording_page show ?thesis by (rule reachable_step)
qed

lemma run_done_page: "run recording_page [Toggle, StopCompleted 0 clip] = Some done_page"
  by (simp add: eval_defs recording_page_def done_page_def)

lemma reachable_done_page: "reachable done_page"
  using reachable_recording_page run_done_page by (rule run_reachable)

lemma reachable_paused_at_zero: "reachable (play (play done_page))"
proof -
  have "run done_page [Play, Play] = Some (play (play done_page))" by simp
  with reachable_done_page show ?thesis by (rule run_reachable)
qed

section \<open>Stopping a recording\<close>

lemma stop_completed_teardown:
  assumes "r \<in> set (stopping t)" "recordRTC t = Some r" "r < length (recorders t)"
    and "onStateChange t = Some h"
    and "\<forall>st. stream t = Some st \<longrightarrow> st < length (streams t)"
    and "\<forall>f. animFrame t = Some f \<longrightarrow> 0 < f"
  shows "\<exists>t'. step t (StopCompleted r b) = Some t'
            \<and> uncaught t' = uncaught t
            \<and> stream t' = None
            \<and> (\<forall>st. stream t = Some st \<longrightarrow>
                  st < length (streams t') \<and> (\<forall>live \<in> set (streams t' ! st). \<not> live))
            \<and> animFrame t' = None
            \<and> (\<forall>f. animFrame t = Some f \<longrightarrow> f \<notin> fst ` set (scheduled t'))
            \<and> length (bars t') = length (bars t) \<and> (\<forall>x \<in> set (bars t'). x = 4)
            \<and> rstate t' = Done
            \<and> blob t' = Some b
            \<and> notified t' = notified t @ [(h, Done)]"
proof -
  let ?t0 = "finalise r b (t\<lparr>stopping := remove1 r (stopping t)\<rparr>)"
  have g: "rtc_getBlob r ?t0 = Some b"
    using assms(3) by (simp add: rtc_getBlob_def finalise_def)
  define t' where "t' = notify Done (setUI Done ((stopVisualiser (release_stream
               (?t0\<lparr>blob := Some b,
                     console := console ?t0 @ [LogBlobReady (blob_size b) (blob_type b)]\<rparr>)))
               \<lparr>rstate := Done\<rparr>))"
  have cb: "stop_callback ?t0 = Inr t'"
    unfolding t'_def using assms(2) g by (intro stop_callback_blob) simp_all
  have st: "step t (StopCompleted r b) = Some t'"
    using assms(1) cb by simp
  have "uncaught t' = uncaught t" "stream t' = None" "animFrame t' = None"
    "length (bars t') = length (bars t)" "\<forall>x \<in> set (bars t'). x = 4"
    "rstate t' = Done" "blob t' = Some b"
    by (simp_all add: t'_def)
  moreover have "notified t' = notified t @ [(h, Done)]"
    using assms(4) by (simp add: t'_def)
  moreover have "\<forall>st. stream t = Some st \<longrightarrow>
      st < length (streams t') \<and> (\<forall>live \<in> set (streams t' ! st). \<not> live)"
    using assms(5) by (auto simp: t'_def stop_tracks_def)
  moreover have "\<forall>f. animFrame t = Some f \<longrightarrow> f \<notin> fst ` set (scheduled t')"
    using assms(6) by (auto simp: t'_def)
  ultimately show ?thesis using st by blast
qed

text \<open>
  Claim C1, as stated, fails when a later start has replaced the encoder before the
  stop completes. On the page with two bars and hook 7: two \<^verbatim>\<open>toggle\<close> calls request
  the microphone twice; the first grant starts recorder 0 and the state is
  \<^verbatim>\<open>recording\<close>; a \<^verbatim>\<open>toggle\<close> asks recorder 0 to stop; the second grant makes
  recorder 1 the current one. When the stop of recorder 0 completes, \<^verbatim>\<open>getBlob()\<close>
  of recorder 1 is \<^verbatim>\<open>null\<close> and the callback throws: the state is still
  \<^verbatim>\<open>recording\<close>, stream 1 is still held and both streams are live, a frame is still
  scheduled, the bars were not reset, and the hook was never called with \<^verbatim>\<open>done\<close>.
\<close>

theorem toggle_stop_teardown_counterexample:
  "map_option rstate (run page [SetHook (Some 7), Toggle, Toggle, MicGranted 1 [255]])
     = Some Recording
   \<and> map_option stopping
       (run page [SetHook (Some 7), Toggle, Toggle, MicGranted 1 [255], Toggle,
                  MicGranted 1 [255]]) = Some [0]
   \<and> map_option rstate
       (run page [SetHook (Some 7), Toggle, Toggle, MicGranted 1 [255], Toggle,
                  MicGranted 1 [255], StopCompleted 0 clip]) = Some Recording
   \<and> map_option stream
       (run page [SetHook (Some 7), Toggle, Toggle, MicGranted 1 [255], Toggle,
                  MicGranted 1 [255], StopCompleted 0 clip]) = Some (Some 1)
   \<and> map_option streams
       (run page [SetHook (Some 7), Toggle, Toggle, MicGranted 1 [255], Toggle,
                  MicGranted 1 [255], StopCompleted 0 clip]) = Some [[True], [True]]
   \<and> map_option animFrame
       (run page [SetHook (Some 7), Toggle, Toggle, MicGranted 1 [255], Toggle,
                  MicGranted 1 [255], StopCompleted 0 clip]) = Some (Some 2)
   \<and> map_option (map fst \<circ> scheduled)
       (run page [SetHook (Some 7), Toggle, Toggle, MicGranted 1 [255], Toggle,
                  MicGranted 1 [255], StopCompleted 0 clip]) = Some [1, 2]
   \<and> map_option bars
       (run page [SetHook (Some 7), Toggle, Toggle, MicGranted 1 [255], Toggle,
                  MicGranted 1 [255], StopCompleted 0 clip]) = Some [52, 4]
   \<and> map_option notified
       (run page [SetHook (Some 7), Toggle, Toggle, MicGranted 1 [255], Toggle,
                  MicGranted 1 [255], StopCompleted 0 clip])
       = Some [(7, Recording), (7, Recording)]
   \<and> map_option uncaught
       (run page [SetHook (Some 7), Toggle, Toggle, MicGranted 1 [255], Toggle,
                  MicGranted 1 [255], StopCompleted 0 clip]) = Some [TypeError]"
  by code_simp

text \<open>
  Claim C1, amended. A \<^verbatim>\<open>toggle\<close> in state \<^verbatim>\<open>recording\<close> asks the encoder to stop
  and changes nothing else. When the stop of an encoder completes and that encoder is
  still the one held in \<^verbatim>\<open>recordRTC\<close>, the callback stops every track of the active
  stream and clears the reference, cancels the frame held in \<^verbatim>\<open>animFrame\<close>, sets every
  bar to 4 pixels, sets the state to \<^verbatim>\<open>done\<close>, stores the artifact, and calls the
  installed \<^verbatim>\<open>onStateChange\<close> hook exactly once, with \<^verbatim>\<open>done\<close>; no exception
  leaves the callback.
\<close>

theorem toggle_stop_teardown:
  assumes "reachable s" and "rstate s = Recording"
    and "reachable t" and "r' \<in> set (stopping t)" and "recordRTC t = Some r'"
    and "onStateChange t = Some h"
  shows "(\<exists>r. recordRTC s = Some r \<and> toggle s = Inr (stopRecording r s)
              \<and> stopping (stopRecording r s) = stopping s @ [r]
              \<and> pending_stop (stopRecording r s) = Suc (pending_stop s))
       \<and> (\<exists>t'. step t (StopCompleted r' b) = Some t'
            \<and> uncaught t' = uncaught t
            \<and> stream t' = None
            \<and> (\<forall>st. stream t = Some st \<longrightarrow>
                  st < length (streams t') \<and> (\<forall>live \<in> set (streams t' ! st). \<not> live))
            \<and> animFrame t' = None
            \<and> (\<forall>f. animFrame t = Some f \<longrightarrow> f \<notin> fst ` set (scheduled t'))
            \<and> length (bars t') = length (bars t) \<and> (\<forall>x \<in> set (bars t'). x = 4)
            \<and> rstate t' = Done
            \<and> blob t' = Some b
            \<and> notified t' = notified t @ [(h, Done)])"
proof -
  from assms(1,2) obtain r where r: "recordRTC s = Some r"
    using reachable_consistent [of s] by (auto simp: consistent_def)
  then have "toggle s = Inr (stopRecording r s)"
    using assms(2) by (simp add: toggle_def)
  moreover have "stopping (stopRecording r s) = stopping s @ [r]"
    "pending_stop (stopRecording r s) = Suc (pending_stop s)"
    by (simp_all add: stopRecording_def pending_stop_def)
  moreover have "\<exists>t'. step t (StopCompleted r' b) = Some t'
            \<and> uncaught t' = uncaught t
            \<and> stream t' = None
            \<and> (\<forall>st. stream t = Some st \<longrightarrow>
                  st < length (streams t') \<and> (\<forall>live \<in> set (streams t' ! st). \<not> live))
            \<and> animFrame t' = None
            \<and> (\<forall>f. animFrame t = Some f \<longrightarrow> f \<notin> fst ` set (scheduled t'))
            \<and> length (bars t') = length (bars t) \<and> (\<forall>x \<in> set (bars t'). x = 4)
            \<and> rstate t' = Done
            \<and> blob t' = Some b
            \<and> notified t' = notified t @ [(h, Done)]"
    using assms(4-6) reachable_consistent [OF assms(3)]
    by (intro stop_completed_teardown) (auto simp: consistent_def)
  ultimately show ?thesis using r by blast
qed

theorem toggle_stop_teardown_witness:
  "reachable recording_page \<and> rstate recording_page = Recording
   \<and> reachable (stopRecording 0 recording_page)
   \<and> 0 \<in> set (stopping (stopRecording 0 recording_page))
   \<and> recordRTC (stopRecording 0 recording_page) = Some 0
   \<and> onStateChange (stopRecording 0 recording_page) = Some 7
   \<and> toggle recording_page = Inr (stopRecording 0 recording_page)
   \<and> (\<exists>t'. step (stopRecording 0 recording_page) (StopCompleted 0 clip) = Some t'
         \<and> stream t' = None \<and> streams t' = [[False]] \<and> animFrame t' = None
         \<and> scheduled t' = [] \<and> bars t' = [4, 4] \<and> rstate t' = Done
         \<and> blob t' = Some clip
         \<and> notified t' = [(7, Recording), (7, Done)])"
  using toggle_stop_teardown [of recording_page "stopRecording 0 recording_page" 0 7 clip]
    reachable_recording_page reachable_stopping
  by (auto simp: recording_page_def stopRecording_def stop_callback_def stop_tracks_def
      finalise_def rtc_getBlob_def Let_def)

section \<open>Starting a recording\<close>

text \<open>
  Claim C2. A \<^verbatim>\<open>toggle\<close> in state \<^verbatim>\<open>idle\<close> or \<^verbatim>\<open>done\<close> requests the microphone.
  When the request succeeds with a stream, the state becomes \<^verbatim>\<open>recording\<close>, a
  RecordRTC instance recording that stream is the current one, the analyser's source is
  that same stream, a frame is scheduled, and the installed hook is called exactly once,
  with \<^verbatim>\<open>recording\<close>.
\<close>

theorem toggle_start_success:
  assumes "rstate s = Idle \<or> rstate s = Done"
    and "0 < pending_mic t" and "onStateChange t = Some h"
  shows "toggle s = Inr (getUserMedia s)
       \<and> pending_mic (getUserMedia s) = Suc (pending_mic s)
       \<and> (\<exists>t' r an. step t (MicGranted n snap) = Some t'
            \<and> uncaught t' = uncaught t
            \<and> rstate t' = Recording
            \<and> stream t' = Some (length (streams t))
            \<and> streams t' = streams t @ [replicate n True]
            \<and> recordRTC t' = Some r \<and> r < length (recorders t')
            \<and> recorders t' ! r = \<lparr>rec_stream = length (streams t), rec_active = True,
                                   rec_blob = None\<rparr>
            \<and> analyser t' = Some an \<and> an_source an = length (streams t)
            \<and> (\<exists>f. animFrame t' = Some f \<and> f \<in> fst ` set (scheduled t'))
            \<and> notified t' = notified t @ [(h, Recording)])"
  using assms
  by (auto simp: toggle_def getUserMedia_def toggle_resume_def startVisualiser_def draw_def
      requestAnimationFrame_def notify_def setUI_def Let_def)

theorem toggle_start_success_witness:
  "rstate (page\<lparr>onStateChange := Some 7\<rparr>) = Idle
   \<and> 0 < pending_mic (getUserMedia (page\<lparr>onStateChange := Some 7\<rparr>))
   \<and> onStateChange (getUserMedia (page\<lparr>onStateChange := Some 7\<rparr>)) = Some 7
   \<and> toggle (page\<lparr>onStateChange := Some 7\<rparr>) = Inr (getUserMedia (page\<lparr>onStateChange := Some 7\<rparr>))
   \<and> step (getUserMedia (page\<lparr>onStateChange := Some 7\<rparr>)) (MicGranted 1 []) = Some recording_page"
  using toggle_start_success [of "page\<lparr>onStateChange := Some 7\<rparr>"
      "getUserMedia (page\<lparr>onStateChange := Some 7\<rparr>)" 7 1 "[]"]
  by (auto simp: eval_defs recording_page_def)

text \<open>
  Claim C3. A \<^verbatim>\<open>toggle\<close> in state \<^verbatim>\<open>idle\<close> requests the microphone. When the
  request fails, the continuation returns normally: the state is still \<^verbatim>\<open>idle\<close>, the
  hook is not called, no recorder, audio context, analyser, frame or stream is created
  or replaced, and the microphone notice is shown.
\<close>

theorem toggle_start_denied:
  assumes "rstate s = Idle" and "0 < pending_mic t" and "rstate t = Idle"
  shows "toggle s = Inr (getUserMedia s)
       \<and> (\<exists>t'. step t (MicDenied err) = Some t'
            \<and> uncaught t' = uncaught t
            \<and> rstate t' = Idle
            \<and> notified t' = notified t
            \<and> recordRTC t' = recordRTC t \<and> recorders t' = recorders t
            \<and> audioCtx t' = audioCtx t \<and> analyser t' = analyser t
            \<and> contexts t' = contexts t
            \<and> animFrame t' = animFrame t \<and> scheduled t' = scheduled t
            \<and> stream t' = stream t \<and> streams t' = streams t
            \<and> alerts t' = alerts t @ [MicUnavailable])"
  using assms
  by (auto simp: toggle_def toggle_resume_def alert_def)

theorem toggle_start_denied_witness:
  "rstate page = Idle \<and> 0 < pending_mic (getUserMedia page) \<and> rstate (getUserMedia page) = Idle
   \<and> toggle page = Inr (getUserMedia page)
   \<and> step (getUserMedia page) (MicDenied NotAllowedError)
       = Some (page\<lparr>alerts := [MicUnavailable], console := [LogMicDenied NotAllowedError]\<rparr>)"
  using toggle_start_denied [of page "getUserMedia page" NotAllowedError]
  by (auto simp: eval_defs)

section \<open>The visualiser's bars\<close>

lemma length_draw_from: "length (draw_from i count dataArray bs) = length bs"
proof (induction i count dataArray bs rule: draw_from.induct)
  case (1 i count dataArray bs)
  then show ?case by (subst draw_from.simps) (simp add: Let_def)
qed

lemma draw_from_below: "j < i \<Longrightarrow> draw_from i count dataArray bs ! j = bs ! j"
proof (induction i count dataArray bs rule: draw_from.induct)
  case (1 i count dataArray bs)
  then show ?case by (subst draw_from.simps) (simp add: Let_def)
qed

lemma bin_in_range: "i < count \<Longrightarrow> 0 < n \<Longrightarrow> i * n div count < (n::nat)"
  by (metis div_less_iff_less_mult less_nat_zero_code mult.commute mult_less_cancel2 neq0_conv)

lemma draw_from_nth:
  "i \<le> j \<Longrightarrow> j < count \<Longrightarrow> j < length bs \<Longrightarrow> 0 < length dataArray \<Longrightarrow>
   draw_from i count dataArray bs ! j = bar_height (dataArray ! (j * length dataArray div count))"
proof (induction i count dataArray bs rule: draw_from.induct)
  case (1 i count dataArray bs)
  show ?case
  proof (cases "i = j")
    case True
    with 1 show ?thesis
      by (subst draw_from.simps) (simp add: draw_from_below bin_in_range Let_def)
  next
    case False
    with 1 show ?thesis
      by (subst draw_from.simps) (simp add: Let_def)
  qed
qed

lemma unat_byte_le: "unat (v::byte) \<le> 255"
  using unsigned_less [of v, where 'a = nat] by simp

lemma height_range:
  fixes x :: real
  shows "0 \<le> x \<Longrightarrow> x \<le> 255 \<Longrightarrow> 4 \<le> 4 + (x / 255) * 48 \<and> 4 + (x / 255) * 48 \<le> 52"
  by simp

lemma bar_height_bounds: "4 \<le> bar_height v \<and> bar_height v \<le> 52"
proof -
  have "real (unat v) \<le> 255" using unat_byte_le [of v] by linarith
  moreover have "0 \<le> real (unat v)" by (rule of_nat_0_le_iff)
  ultimately show ?thesis unfolding bar_height_def by (rule height_range [rotated])
qed

lemma bar_height_mono: "v \<le> w \<Longrightarrow> bar_height v \<le> bar_height w"
proof -
  assume "v \<le> w"
  then have "unat v \<le> unat w" by (simp add: word_le_nat_alt)
  then have "real (unat v) \<le> real (unat w)" by linarith
  then show ?thesis unfolding bar_height_def by (simp add: divide_right_mono)
qed

lemma length_getByteFrequencyData:
  "length (getByteFrequencyData snap dataArray) = length dataArray"
  by (simp add: getByteFrequencyData_def)

text \<open>
  Claim C4. With \<open>N\<close> bars, \<open>1 \<le> N \<le>\<close> the number of bins, a frame gives bar \<open>i\<close>
  the magnitude \<open>m\<close> of bin \<open>i * binCount div N\<close> (an index inside the array) and the
  height \<open>4 + (m / 255) * 48\<close>; that height lies between 4 and 52, and the height is
  a non-decreasing function of the magnitude.
\<close>

theorem visualiser_bar_heights:
  assumes an: "analyser s = Some an"
    and n: "cl_count cl = length (bars s)" "1 \<le> cl_count cl" "cl_count cl \<le> length (cl_data cl)"
    and i: "i < cl_count cl"
  shows "\<exists>s' m. draw cl snap s = Inr s'
       \<and> i * length (cl_data cl) div cl_count cl < length (cl_data cl)
       \<and> m = getByteFrequencyData snap (cl_data cl) ! (i * length (cl_data cl) div cl_count cl)
       \<and> bars s' ! i = 4 + (real (unat m) / 255) * 48
       \<and> 4 \<le> bars s' ! i \<and> bars s' ! i \<le> 52
       \<and> (\<forall>v w. v \<le> w \<longrightarrow> bar_height v \<le> bar_height w)"
proof -
  let ?data = "getByteFrequencyData snap (cl_data cl)"
  let ?bin = "i * length (cl_data cl) div cl_count cl"
  let ?bs = "draw_from 0 (cl_count cl) ?data (bars s)"
  obtain s' where d: "draw cl snap s = Inr s'" and b: "bars s' = ?bs"
    using an by (simp add: draw_def requestAnimationFrame_def Let_def)
  have len: "0 < length (cl_data cl)" using n by linarith
  have bin: "?bin < length (cl_data cl)" using i len by (rule bin_in_range)
  have "?bs ! i = bar_height (?data ! (i * length ?data div cl_count cl))"
    using i n len by (intro draw_from_nth) (simp_all add: length_getByteFrequencyData)
  then have h: "bars s' ! i = bar_height (?data ! ?bin)"
    by (simp add: b length_getByteFrequencyData)
  have "bars s' ! i = 4 + (real (unat (?data ! ?bin)) / 255) * 48"
    unfolding h bar_height_def ..
  moreover have "4 \<le> bars s' ! i \<and> bars s' ! i \<le> 52"
    unfolding h by (rule bar_height_bounds)
  moreover have "\<forall>v w. v \<le> w \<longrightarrow> bar_height v \<le> bar_height w"
    by (simp add: bar_height_mono)
  ultimately show ?thesis using d bin by blast
qed

theorem visualiser_bar_heights_witness:
  "analyser recording_page = Some \<lparr>an_ctx = 0, an_source = 0, an_fftSize = 256\<rparr>
   \<and> cl_count \<lparr>cl_count = 2, cl_data = replicate 128 0\<rparr> = length (bars recording_page)
   \<and> (1::nat) \<le> 2 \<and> (2::nat) \<le> length (replicate 128 (0::byte)) \<and> (1::nat) < 2
   \<and> (\<exists>s' m. draw \<lparr>cl_count = 2, cl_data = replicate 128 0\<rparr> (replicate 64 0 @ [255])
                 recording_page = Inr s'
        \<and> m = getByteFrequencyData (replicate 64 0 @ [255]) (replicate 128 0) ! 64
        \<and> bars s' ! 1 = 4 + (real (unat m) / 255) * 48
        \<and> 4 \<le> bars s' ! 1 \<and> bars s' ! 1 \<le> 52)"
  using visualiser_bar_heights [of recording_page "\<lparr>an_ctx = 0, an_source = 0, an_fftSize = 256\<rparr>"
      "\<lparr>cl_count = 2, cl_data = replicate 128 0\<rparr>" 1 "replicate 64 0 @ [255]"]
  by (auto simp: recording_page_def)

text \<open>
  The bounds and the monotonicity do not depend on exact arithmetic: they hold for
  every rounding that is monotone and keeps 0, 1, 4, 48 and 52, as rounding to the
  nearest double does.
\<close>

lemma bar_height_rounded_exact: "bar_height_rounded (\<lambda>x. x) v = bar_height v"
  by (simp add: bar_height_rounded_def bar_height_def)

lemma rounded_range:
  fixes x :: real
  assumes "mono fl" and "fl 0 = 0" and "fl 1 = 1" and "fl 4 = 4" and "fl 48 = 48"
    and "fl 52 = 52" and "0 \<le> x" and "x \<le> 255"
  shows "4 \<le> fl (4 + fl (fl (x / 255) * 48)) \<and> fl (4 + fl (fl (x / 255) * 48)) \<le> 52"
proof -
  let ?q = "fl (x / 255)"
  let ?p = "fl (?q * 48)"
  note m = monoD [OF assms(1)]
  from assms(7,8) have "0 \<le> x / 255" "x / 255 \<le> 1" by simp_all
  then have "fl 0 \<le> ?q" "?q \<le> fl 1" by (simp_all add: m)
  then have q: "0 \<le> ?q" "?q \<le> 1" using assms(2,3) by simp_all
  then have "0 \<le> ?q * 48" "?q * 48 \<le> 48" by simp_all
  then have "fl 0 \<le> ?p" "?p \<le> fl 48" by (simp_all add: m)
  then have p: "0 \<le> ?p" "?p \<le> 48" using assms(2,5) by simp_all
  then have "4 \<le> 4 + ?p" "4 + ?p \<le> 52" by simp_all
  then have "fl 4 \<le> fl (4 + ?p)" "fl (4 + ?p) \<le> fl 52" by (simp_all add: m)
  then show ?thesis using assms(4,6) by simp
qed

lemma rounded_mono:
  fixes x y :: real
  assumes "mono fl" and "x \<le> y"
  shows "fl (4 + fl (fl (x / 255) * 48)) \<le> fl (4 + fl (fl (y / 255) * 48))"
proof -
  note m = monoD [OF assms(1)]
  from assms(2) have "x / 255 \<le> y / 255" by (simp add: divide_right_mono)
  then have "fl (x / 255) \<le> fl (y / 255)" by (rule m)
  then have "fl (x / 255) * 48 \<le> fl (y / 255) * 48" by simp
  then have "fl (fl (x / 255) * 48) \<le> fl (fl (y / 255) * 48)" by (rule m)
  then have "4 + fl (fl (x / 255) * 48) \<le> 4 + fl (fl (y / 255) * 48)" by simp
  then show ?thesis by (rule m)
qed

lemma bar_height_rounded_bounds:
  assumes "mono fl" and "fl 0 = 0" and "fl 1 = 1" and "fl 4 = 4" and "fl 48 = 48"
    and "fl 52 = 52"
  shows "4 \<le> bar_height_rounded fl v \<and> bar_height_rounded fl v \<le> 52"
proof -
  have "0 \<le> real (unat v)" by (rule of_nat_0_le_iff)
  moreover have "real (unat v) \<le> 255" using unat_byte_le [of v] by linarith
  ultimately show ?thesis
    unfolding bar_height_rounded_def by (rule rounded_range [OF assms])
qed

lemma bar_height_rounded_mono:
  assumes "mono fl" and "v \<le> w"
  shows "bar_height_rounded fl v \<le> bar_height_rounded fl w"
proof -
  from assms(2) have "unat v \<le> unat w" by (simp add: word_le_nat_alt)
  then have "real (unat v) \<le> real (unat w)" by linarith
  then show ?thesis
    unfolding bar_height_rounded_def by (rule rounded_mono [OF assms(1)])
qed

text \<open>
  Every frame the page schedules was built for the page's bars and for the analyser's
  128 bins, so the bar count of a frame is the number of bars and the bin count is 128.
\<close>

lemma stop_callback_keeps:
  "length (bars (finish (stop_callback s))) = length (bars s)
   \<and> set (scheduled (finish (stop_callback s))) \<subseteq> set (scheduled s)"
  by (auto simp: stop_callback_def Let_def split: option.splits if_splits)

lemma step_bars_length: "step s e = Some s' \<Longrightarrow> length (bars s') = length (bars s)"
proof (cases e)
  case Toggle
  then show "step s e = Some s' \<Longrightarrow> ?thesis"
    by (auto simp: toggle_def stopRecording_def getUserMedia_def split: option.splits)
next
  case (MicDenied err)
  then show "step s e = Some s' \<Longrightarrow> ?thesis"
    by (auto simp: toggle_resume_def split: if_splits)
next
  case (MicGranted n snap)
  then show "step s e = Some s' \<Longrightarrow> ?thesis"
    by (auto simp: toggle_resume_def startVisualiser_def draw_def requestAnimationFrame_def
      length_draw_from Let_def split: if_splits)
next
  case (StopCompleted r b)
  then show "step s e = Some s' \<Longrightarrow> ?thesis"
    using stop_callback_keeps [of "finalise r b (s\<lparr>stopping := remove1 r (stopping s)\<rparr>)"]
    by (auto split: if_splits)
next
  case (Frame fid snap)
  then show "step s e = Some s' \<Longrightarrow> ?thesis"
    by (auto simp: draw_def requestAnimationFrame_def cancelAnimationFrame_def
      length_draw_from Let_def split: if_splits option.splits)
next
  case Play
  then show "step s e = Some s' \<Longrightarrow> ?thesis"
    by (auto simp: play_def fresh_play_def createObjectURL_def split: if_splits option.splits)
next
  case (Advance dt)
  then show "step s e = Some s' \<Longrightarrow> ?thesis"
    by (auto split: if_splits option.splits)
next
  case Ended
  then show "step s e = Some s' \<Longrightarrow> ?thesis"
    by (auto simp: on_ended_def revokeObjectURL_def split: if_splits option.splits)
next
  case (SetHook h)
  then show "step s e = Some s' \<Longrightarrow> ?thesis" by auto
qed

lemma step_scheduled:
  assumes "step s e = Some s'"
    and "\<forall>p \<in> set (scheduled s). cl_count (snd p) = length (bars s) \<and> length (cl_data (snd p)) = 128"
  shows "\<forall>p \<in> set (scheduled s'). cl_count (snd p) = length (bars s') \<and> length (cl_data (snd p)) = 128"
proof -
  have len: "length (bars s') = length (bars s)" using assms(1) by (rule step_bars_length)
  show ?thesis
  proof (cases e)
    case Toggle
    with assms(1) have "scheduled s' = scheduled s"
      using step_Toggle [of s s'] by simp
    with assms(2) len show ?thesis by simp
  next
    case (MicDenied err)
    with assms(1) have "scheduled s' = scheduled s"
      using step_MicDenied [of s err s'] by simp
    with assms(2) len show ?thesis by simp
  next
    case (MicGranted n snap)
    with assms(1) have "scheduled s' = scheduled s @
        [(Suc (next_frame s), \<lparr>cl_count = length (bars s),
            cl_data = getByteFrequencyData snap (replicate 128 0)\<rparr>)]"
      by (auto simp: toggle_resume_def startVisualiser_def draw_def requestAnimationFrame_def
          frequencyBinCount_def Let_def split: if_splits)
    with assms(2) len show ?thesis
      by (auto simp: length_getByteFrequencyData)
  next
    case (StopCompleted r b)
    with assms(1) have "set (scheduled s') \<subseteq> set (scheduled s)"
      using stop_callback_keeps [of "finalise r b (s\<lparr>stopping := remove1 r (stopping s)\<rparr>)"]
      by (auto split: if_splits)
    with assms(2) len show ?thesis by auto
  next
    case (Frame fid snap)
    with assms(1) obtain cl where cl: "map_of (scheduled s) fid = Some cl"
      by (auto split: option.splits)
    then have "(fid, cl) \<in> set (scheduled s)" by (rule map_of_SomeD)
    with assms(2) have c: "cl_count cl = length (bars s)" "length (cl_data cl) = 128"
      by auto
    from assms(1) Frame cl have "set (scheduled s') \<subseteq> set (scheduled s) \<union>
        {(Suc (next_frame s), cl\<lparr>cl_data := getByteFrequencyData snap (cl_data cl)\<rparr>)}"
      by (auto simp: draw_def requestAnimationFrame_def cancelAnimationFrame_def Let_def
          split: option.splits)
    with assms(2) len c show ?thesis
      by (auto simp: length_getByteFrequencyData)
  next
    case Play
    with assms(1) have "scheduled s' = scheduled s"
      using step_Play [of s s'] by simp
    with assms(2) len show ?thesis by simp
  next
    case (Advance dt)
    with assms(1) have "scheduled s' = scheduled s"
      using step_Advance [of s dt s'] by simp
    with assms(2) len show ?thesis by simp
  next
    case Ended
    with assms(1) have "scheduled s' = scheduled s"
      using step_Ended [of s s'] by simp
    with assms(2) len show ?thesis by simp
  next
    case (SetHook h)
    with assms(1) have "scheduled s' = scheduled s"
      using step_SetHook [of s h s'] by simp
    with assms(2) len show ?thesis by simp
  qed
qed

lemma reachable_scheduled:
  "reachable s \<Longrightarrow>
   \<forall>p \<in> set (scheduled s). cl_count (snd p) = length (bars s) \<and> length (cl_data (snd p)) = 128"
proof (induction rule: reachable.induct)
  case (reachable_initial bars0 dom0)
  show ?case by (simp add: initial_def)
next
  case (reachable_step s e s')
  from reachable_step(2,3) show ?case by (rule step_scheduled)
qed

section \<open>A toggle while another is in flight\<close>

text \<open>
  Claim C5, as stated, fails: the module has no guard. On the page with two bars, a
  second \<^verbatim>\<open>toggle\<close> after a stop request (state still \<^verbatim>\<open>recording\<close>, one callback
  pending) leaves two callbacks pending; a second \<^verbatim>\<open>toggle\<close> while the microphone
  request is pending makes a second request, and when both succeed two streams are live
  and two recorders are recording.
\<close>

theorem toggle_in_flight_counterexample:
  "map_option rstate (run page [Toggle, MicGranted 1 [], Toggle]) = Some Recording
   \<and> map_option pending_stop (run page [Toggle, MicGranted 1 [], Toggle]) = Some 1
   \<and> map_option pending_stop (run page [Toggle, MicGranted 1 [], Toggle, Toggle]) = Some 2
   \<and> map_option pending_mic (run page [Toggle]) = Some 1
   \<and> map_option pending_mic (run page [Toggle, Toggle]) = Some 2
   \<and> map_option streams (run page [Toggle, Toggle, MicGranted 1 [], MicGranted 1 []])
       = Some [[True], [True]]
   \<and> map_option recorders (run page [Toggle, Toggle, MicGranted 1 [], MicGranted 1 []])
       = Some [\<lparr>rec_stream = 0, rec_active = True, rec_blob = None\<rparr>,
               \<lparr>rec_stream = 1, rec_active = True, rec_blob = None\<rparr>]"
  by (simp add: eval_defs)

text \<open>
  Claim C5, amended. A \<^verbatim>\<open>toggle\<close> made while a stop is in flight and the state is
  still \<^verbatim>\<open>recording\<close> is not rejected: it asks the current encoder to stop once
  more; it performs no state transition, opens no stream, requests no microphone,
  creates no recorder, and notifies nobody. A \<^verbatim>\<open>toggle\<close> made while a microphone
  request is in flight and the state is not \<^verbatim>\<open>recording\<close> requests the microphone
  again and changes nothing else.
\<close>

theorem toggle_in_flight:
  assumes "reachable s"
  shows "(0 < pending_stop s \<and> rstate s = Recording \<longrightarrow>
            (\<exists>r s'. recordRTC s = Some r \<and> step s Toggle = Some s'
               \<and> s' = stopRecording r s
               \<and> pending_stop s' = Suc (pending_stop s)
               \<and> rstate s' = Recording \<and> stream s' = stream s \<and> streams s' = streams s
               \<and> pending_mic s' = pending_mic s
               \<and> length (recorders s') = length (recorders s)
               \<and> notified s' = notified s \<and> blob s' = blob s))
       \<and> (0 < pending_mic s \<and> rstate s \<noteq> Recording \<longrightarrow>
            step s Toggle = Some (s\<lparr>pending_mic := Suc (pending_mic s)\<rparr>))"
proof (intro conjI impI)
  assume a: "0 < pending_stop s \<and> rstate s = Recording"
  then obtain r where r: "recordRTC s = Some r"
    using reachable_consistent [OF assms] by (auto simp: consistent_def)
  with a have "step s Toggle = Some (stopRecording r s)"
    by (simp add: toggle_def)
  moreover have "pending_stop (stopRecording r s) = Suc (pending_stop s)"
    "rstate (stopRecording r s) = rstate s" "stream (stopRecording r s) = stream s"
    "streams (stopRecording r s) = streams s" "pending_mic (stopRecording r s) = pending_mic s"
    "length (recorders (stopRecording r s)) = length (recorders s)"
    "notified (stopRecording r s) = notified s" "blob (stopRecording r s) = blob s"
    by (simp_all add: stopRecording_def pending_stop_def)
  ultimately show "\<exists>r s'. recordRTC s = Some r \<and> step s Toggle = Some s'
               \<and> s' = stopRecording r s
               \<and> pending_stop s' = Suc (pending_stop s)
               \<and> rstate s' = Recording \<and> stream s' = stream s \<and> streams s' = streams s
               \<and> pending_mic s' = pending_mic s
               \<and> length (recorders s') = length (recorders s)
               \<and> notified s' = notified s \<and> blob s' = blob s"
    using r a by simp
next
  assume "0 < pending_mic s \<and> rstate s \<noteq> Recording"
  then show "step s Toggle = Some (s\<lparr>pending_mic := Suc (pending_mic s)\<rparr>)"
    by (simp add: toggle_def getUserMedia_def)
qed

theorem toggle_in_flight_witness:
  "reachable (stopRecording 0 recording_page)
   \<and> 0 < pending_stop (stopRecording 0 recording_page)
   \<and> rstate (stopRecording 0 recording_page) = Recording
   \<and> step (stopRecording 0 recording_page) Toggle
       = Some (stopRecording 0 (stopRecording 0 recording_page))
   \<and> pending_stop (stopRecording 0 (stopRecording 0 recording_page)) = 2
   \<and> reachable (getUserMedia page) \<and> 0 < pending_mic (getUserMedia page)
   \<and> rstate (getUserMedia page) \<noteq> Recording
   \<and> step (getUserMedia page) Toggle = Some (page\<lparr>pending_mic := 2\<rparr>)"
proof -
  have "step page Toggle = Some (getUserMedia page)"
    by (simp add: eval_defs)
  with reachable_page have r: "reachable (getUserMedia page)" by (rule reachable_step)
  show ?thesis
    using toggle_in_flight [OF reachable_stopping] toggle_in_flight [OF r] reachable_stopping r
    by (auto simp: recording_page_def stopRecording_def eval_defs)
qed

section \<open>The artifact\<close>

text \<open>
  Claim C6, as stated, fails when a later start has replaced the encoder before a stop
  completes. After a first recording of the clip, \<^verbatim>\<open>getBlob\<close> returns the clip. Then
  two \<^verbatim>\<open>toggle\<close> calls request the microphone twice, the first grant starts
  recorder 1, a \<^verbatim>\<open>toggle\<close> asks it to stop, and the second grant makes recorder 2 the
  current one. When the stop of recorder 1 completes, line 102 stores what
  \<^verbatim>\<open>getBlob()\<close> of recorder 2 returns, which is \<^verbatim>\<open>null\<close>: the artifact is absent
  although two recordings have completed.
\<close>

theorem getBlob_latest_artifact_counterexample:
  "map_option getBlob
     (run page [Toggle, MicGranted 1 [], Toggle, StopCompleted 0 clip]) = Some (Some clip)
   \<and> map_option getBlob
     (run page [Toggle, MicGranted 1 [], Toggle, StopCompleted 0 clip, Toggle, Toggle,
                MicGranted 1 [], Toggle, MicGranted 1 [], StopCompleted 1 clip]) = Some None
   \<and> last_artifact [Toggle, MicGranted 1 [], Toggle, StopCompleted 0 clip, Toggle, Toggle,
                     MicGranted 1 [], Toggle, MicGranted 1 [], StopCompleted 1 clip]
       = Some clip"
  by (simp add: eval_defs)

lemma aligned_step:
  assumes c: "consistent s" and a: "aligned s" and st: "step s e = Some s'"
    and t: "e = Toggle \<longrightarrow> settled s"
  shows "aligned s'"
proof (cases e)
  case Toggle
  from st [unfolded Toggle, THEN step_Toggle] t Toggle show ?thesis
    by (auto simp: aligned_def settled_def split: option.splits)
next
  case (MicDenied err)
  from st [unfolded MicDenied, THEN step_MicDenied] a show ?thesis
    by (auto simp: aligned_def)
next
  case (MicGranted n snap)
  from st [unfolded MicGranted, THEN step_MicGranted] a show ?thesis
    by (auto simp: aligned_def)
next
  case (StopCompleted r b)
  from st [unfolded StopCompleted, THEN step_StopCompleted]
  have "recordRTC s' = recordRTC s" "pending_mic s' = pending_mic s"
    "stopping s' = remove1 r (stopping s)" "r \<in> set (stopping s)"
    by simp_all
  note f = this
  from f(4) a have pm: "pending_mic s = 0" by (auto simp: aligned_def)
  have "recordRTC s' = Some x" if "x \<in> set (stopping s')" for x
  proof -
    from that f(3) have "x \<in> set (remove1 r (stopping s))" by simp
    then have "x \<in> set (stopping s)" by (rule set_remove1_subset [THEN subsetD])
    with a f(1) show ?thesis by (simp add: aligned_def)
  qed
  with pm f(2) show ?thesis by (simp add: aligned_def)
next
  case (Frame fid snap)
  from st [unfolded Frame, THEN step_Frame] a show ?thesis
    by (auto simp: aligned_def)
next
  case Play
  from st [unfolded Play, THEN step_Play] a show ?thesis
    by (auto simp: aligned_def)
next
  case (Advance dt)
  from st [unfolded Advance, THEN step_Advance] a show ?thesis
    by (auto simp: aligned_def)
next
  case Ended
  from st [unfolded Ended, THEN step_Ended] a show ?thesis
    by (auto simp: aligned_def)
next
  case (SetHook h)
  from st [unfolded SetHook, THEN step_SetHook] a show ?thesis
    by (auto simp: aligned_def)
qed

lemma stop_completed_aligned:
  assumes c: "consistent s" and a: "aligned s" and st: "step s (StopCompleted r b) = Some s'"
  shows "rstate s' = Done \<and> getBlob s' = Some b"
proof -
  note f = step_StopCompleted [OF st]
  from f a have cur: "recordRTC s = Some r" by (auto simp: aligned_def)
  with c have "r < length (recorders s)" by (auto simp: consistent_def)
  then have "rtc_getBlob r (finalise r b s) = Some b" by (rule rtc_getBlob_finalise)
  with f cur show ?thesis by (simp add: getBlob_def)
qed

lemma step_getBlob:
  assumes "consistent s" "aligned s" "step s e = Some s'"
  shows "getBlob s' = (case e of StopCompleted r b \<Rightarrow> Some b | _ \<Rightarrow> getBlob s)"
proof (cases e)
  case (StopCompleted r b)
  with stop_completed_aligned [OF assms(1,2) assms(3) [unfolded StopCompleted]]
  show ?thesis by simp
next
  case Toggle
  with assms(3) [unfolded Toggle, THEN step_Toggle] show ?thesis by (simp add: getBlob_def)
next
  case (MicDenied err)
  with assms(3) [unfolded MicDenied, THEN step_MicDenied] show ?thesis by (simp add: getBlob_def)
next
  case (MicGranted n snap)
  with assms(3) [unfolded MicGranted, THEN step_MicGranted] show ?thesis by (simp add: getBlob_def)
next
  case (Frame fid snap)
  with assms(3) [unfolded Frame, THEN step_Frame] show ?thesis by (simp add: getBlob_def)
next
  case Play
  with assms(3) [unfolded Play, THEN step_Play] show ?thesis by (simp add: getBlob_def)
next
  case (Advance dt)
  with assms(3) [unfolded Advance, THEN step_Advance] show ?thesis by (simp add: getBlob_def)
next
  case Ended
  with assms(3) [unfolded Ended, THEN step_Ended] show ?thesis by (simp add: getBlob_def)
next
  case (SetHook h)
  with assms(3) [unfolded SetHook, THEN step_SetHook] show ?thesis by (simp add: getBlob_def)
qed

lemma run_getBlob:
  "reachable s \<Longrightarrow> aligned s \<Longrightarrow> calm s es \<Longrightarrow> run s es = Some s' \<Longrightarrow>
   reachable s' \<and> aligned s' \<and>
   getBlob s' = (case last_artifact es of None \<Rightarrow> getBlob s | Some b \<Rightarrow> Some b)"
proof (induction es arbitrary: s)
  case Nil
  then show ?case by simp
next
  case (Cons e es)
  from Cons.prems(4) obtain s1 where s1: "step s e = Some s1" and r: "run s1 es = Some s'"
    by (auto split: option.splits)
  from Cons.prems(3) s1 have t: "e = Toggle \<longrightarrow> settled s" and cm: "calm s1 es"
    by (auto split: event.splits)
  note c = reachable_consistent [OF Cons.prems(1)]
  from Cons.prems(1) s1 have r1: "reachable s1" by (rule reachable_step)
  from c Cons.prems(2) s1 t have a1: "aligned s1" by (rule aligned_step)
  from Cons.IH [OF r1 a1 cm r] step_getBlob [OF c Cons.prems(2) s1] show ?case
    by (simp split: option.splits event.splits)
qed

text \<open>
  Claim C6, amended. Provided no \<^verbatim>\<open>toggle\<close> is made while an earlier one is still in
  flight: \<^verbatim>\<open>getBlob\<close> returns nothing in the initial state, and after the events it
  returns the artifact of the last recording that completed: nothing as long as none
  has completed, and from then on always an artifact, the previous one until a later
  completion replaces it. A completion moves the state to \<^verbatim>\<open>done\<close> and makes its
  artifact the one returned; no event makes a present artifact absent.
\<close>

theorem getBlob_latest_artifact:
  assumes "run (initial bars0 dom0) es = Some s" and "calm (initial bars0 dom0) es"
  shows "getBlob (initial bars0 dom0) = None
       \<and> getBlob s = last_artifact es
       \<and> (\<forall>r b. r \<in> set (stopping s) \<longrightarrow>
             (\<exists>s'. step s (StopCompleted r b) = Some s' \<and> rstate s' = Done
                   \<and> getBlob s' = Some b))
       \<and> (\<forall>e s'. step s e = Some s' \<longrightarrow> getBlob s \<noteq> None \<longrightarrow> getBlob s' \<noteq> None)"
proof -
  have n: "getBlob (initial bars0 dom0) = None" by (simp add: getBlob_def initial_def)
  have a0: "aligned (initial bars0 dom0)" by (simp add: aligned_def initial_def)
  from run_getBlob [OF reachable_initial a0 assms(2,1)] n
  have r: "reachable s" and al: "aligned s" and a: "getBlob s = last_artifact es"
    by (simp_all split: option.splits)
  note c = reachable_consistent [OF r]
  have b: "\<exists>s'. step s (StopCompleted r b) = Some s' \<and> rstate s' = Done \<and> getBlob s' = Some b"
    if "r \<in> set (stopping s)" for r b
  proof -
    from that obtain s' where s': "step s (StopCompleted r b) = Some s'" by simp
    with stop_completed_aligned [OF c al s'] show ?thesis by blast
  qed
  have d: "getBlob s' \<noteq> None" if "step s e = Some s'" "getBlob s \<noteq> None" for e s'
    using step_getBlob [OF c al that(1)] that(2) by (cases e) simp_all
  from n a b d show ?thesis by blast
qed

theorem getBlob_latest_artifact_witness:
  "run page [Toggle, MicGranted 1 [], Toggle, StopCompleted 0 clip, Play, Toggle,
             MicGranted 1 [], Toggle] \<noteq> None
   \<and> calm page [Toggle, MicGranted 1 [], Toggle, StopCompleted 0 clip, Play, Toggle,
                MicGranted 1 [], Toggle]
   \<and> map_option getBlob
        (run page [Toggle, MicGranted 1 [], Toggle, StopCompleted 0 clip, Play, Toggle,
                   MicGranted 1 [], Toggle]) = Some (Some clip)"
proof -
  let ?es = "[Toggle, MicGranted 1 [], Toggle, StopCompleted 0 clip, Play, Toggle,
              MicGranted 1 [], Toggle]"
  obtain s where s: "run page ?es = Some s"
    by (simp add: eval_defs)
  have c: "calm page ?es"
    by (simp add: eval_defs)
  from getBlob_latest_artifact [OF s [unfolded page_def] c [unfolded page_def]]
  have "getBlob s = Some clip"
    by simp
  with s c show ?thesis by simp
qed

section \<open>Playback\<close>

text \<open>
  Claim C7. \<^verbatim>\<open>play\<close> with no artifact, or with an artifact of size 0, shows the
  no-recording notice and changes nothing else: no playback element or URL is created
  and the existing element, the controls and the playback state are as before.
\<close>

theorem play_without_recording:
  assumes "blob s = None \<or> (\<exists>b. blob s = Some b \<and> blob_size b = 0)"
  shows "play s = s\<lparr>alerts := alerts s @ [NoRecording]\<rparr>
       \<and> audioEl (play s) = audioEl s \<and> urls (play s) = urls s \<and> dom (play s) = dom s
       \<and> playback (play s) = playback s"
  using assms by (auto simp: play_def alert_def playback_def)

theorem play_without_recording_witness:
  "blob page = None
   \<and> play page = page\<lparr>alerts := alerts page @ [NoRecording]\<rparr>
   \<and> playback (play page) = playback page"
  using play_without_recording [of page] by (auto simp: page_def initial_def)

text \<open>
  Claim C8, as stated, fails when the clip is paused at position 0. After a recording
  of the clip, three calls of \<^verbatim>\<open>play\<close> and the natural end visit stopped, playing,
  paused, playing, stopped; but the third call does not resume the paused element
  (URL 0): it creates a second element on a second URL, and after the end the first
  URL is still live.
\<close>

theorem playback_cycle_counterexample:
  "map_option playback
     (run page [Toggle, MicGranted 1 [], Toggle, StopCompleted 0 clip]) = Some Stopped
   \<and> map_option playback
     (run page [Toggle, MicGranted 1 [], Toggle, StopCompleted 0 clip, Play]) = Some Playing
   \<and> map_option audioEl
     (run page [Toggle, MicGranted 1 [], Toggle, StopCompleted 0 clip, Play, Play])
       = Some (Some \<lparr>au_url = 0, au_paused = True, au_time = 0\<rparr>)
   \<and> map_option audioEl
     (run page [Toggle, MicGranted 1 [], Toggle, StopCompleted 0 clip, Play, Play, Play])
       = Some (Some \<lparr>au_url = 1, au_paused = False, au_time = 0\<rparr>)
   \<and> map_option playback
     (run page [Toggle, MicGranted 1 [], Toggle, StopCompleted 0 clip, Play, Play, Play, Ended])
       = Some Stopped
   \<and> map_option urls
     (run page [Toggle, MicGranted 1 [], Toggle, StopCompleted 0 clip, Play, Play, Play, Ended])
       = Some [\<lparr>url_blob = clip, url_live = True\<rparr>, \<lparr>url_blob = clip, url_live = False\<rparr>]"
  by (simp add: eval_defs)

text \<open>
  Claim C8, amended. For a non-empty artifact and no playback element, the cycle
  \<^verbatim>\<open>play\<close>, playing on by \<open>d > 0\<close>, \<^verbatim>\<open>play\<close>, \<^verbatim>\<open>play\<close>, natural end visits stopped,
  playing, paused, playing, stopped: the first call creates an element on a fresh URL
  at position 0, the second pauses it at position \<open>d\<close>, the third resumes the same
  element at position \<open>d\<close> (the position being greater than 0), and the natural end
  drops the element and revokes its URL.
\<close>

theorem playback_cycle:
  assumes "blob s = Some b" and "0 < blob_size b" and "audioEl s = None" and "0 < d"
  shows "\<exists>s1 s2 s3 s4 s5.
      playback s = Stopped
    \<and> step s Play = Some s1 \<and> playback s1 = Playing
    \<and> audioEl s1 = Some \<lparr>au_url = length (urls s), au_paused = False, au_time = 0\<rparr>
    \<and> urls s1 = urls s @ [\<lparr>url_blob = b, url_live = True\<rparr>]
    \<and> step s1 (Advance d) = Some s2 \<and> playback s2 = Playing
    \<and> step s2 Play = Some s3 \<and> playback s3 = Paused
    \<and> audioEl s3 = Some \<lparr>au_url = length (urls s), au_paused = True, au_time = d\<rparr>
    \<and> step s3 Play = Some s4 \<and> playback s4 = Playing
    \<and> audioEl s4 = Some \<lparr>au_url = length (urls s), au_paused = False, au_time = d\<rparr>
    \<and> urls s4 = urls s1
    \<and> step s4 Ended = Some s5 \<and> playback s5 = Stopped
    \<and> urls s5 = urls s @ [\<lparr>url_blob = b, url_live = False\<rparr>]"
  using assms
  by (simp add: play_def fresh_play_def createObjectURL_def revokeObjectURL_def on_ended_def
      playback_def)

theorem playback_cycle_witness:
  "blob done_page = Some clip \<and> 0 < blob_size clip \<and> audioEl done_page = None
   \<and> (0::real) < 2
   \<and> run done_page [Play, Advance 2, Play, Play, Ended]
       = Some (done_page\<lparr>urls := [\<lparr>url_blob = clip, url_live = False\<rparr>]\<rparr>)
   \<and> map_option audioEl (run done_page [Play, Advance 2, Play])
       = Some (Some \<lparr>au_url = 0, au_paused = True, au_time = 2\<rparr>)
   \<and> map_option audioEl (run done_page [Play, Advance 2, Play, Play])
       = Some (Some \<lparr>au_url = 0, au_paused = False, au_time = 2\<rparr>)"
  using playback_cycle [of done_page clip 2]
  by (auto simp: done_page_def clip_def eval_defs)

text \<open>
  Claim C10, as stated, fails when the current artifact is empty. After a recording of
  the clip, two calls of \<^verbatim>\<open>play\<close> leave an element paused at position 0; a second
  recording then yields an empty artifact. The next \<^verbatim>\<open>play\<close> stops at the check of
  line 141: it shows the no-recording notice, creates no URL and no element, and the
  paused element is as before.
\<close>

theorem play_paused_at_zero_counterexample:
  "map_option audioEl
     (run page [Toggle, MicGranted 1 [], Toggle, StopCompleted 0 clip, Play, Play, Toggle,
                MicGranted 1 [], Toggle, StopCompleted 1 silence])
       = Some (Some \<lparr>au_url = 0, au_paused = True, au_time = 0\<rparr>)
   \<and> map_option blob
     (run page [Toggle, MicGranted 1 [], Toggle, StopCompleted 0 clip, Play, Play, Toggle,
                MicGranted 1 [], Toggle, StopCompleted 1 silence]) = Some (Some silence)
   \<and> blob_size silence = 0
   \<and> map_option audioEl
     (run page [Toggle, MicGranted 1 [], Toggle, StopCompleted 0 clip, Play, Play, Toggle,
                MicGranted 1 [], Toggle, StopCompleted 1 silence, Play])
       = Some (Some \<lparr>au_url = 0, au_paused = True, au_time = 0\<rparr>)
   \<and> map_option urls
     (run page [Toggle, MicGranted 1 [], Toggle, StopCompleted 0 clip, Play, Play, Toggle,
                MicGranted 1 [], Toggle, StopCompleted 1 silence, Play])
       = Some [\<lparr>url_blob = clip, url_live = True\<rparr>]
   \<and> map_option alerts
     (run page [Toggle, MicGranted 1 [], Toggle, StopCompleted 0 clip, Play, Play, Toggle,
                MicGranted 1 [], Toggle, StopCompleted 1 silence, Play])
       = Some [NoRecording]"
  by (simp add: eval_defs)

text \<open>
  Claim C10, amended. With a non-empty current artifact and a paused element,
  \<^verbatim>\<open>play\<close> at position 0 takes the fresh-play branch: a new URL for the current
  artifact and a new element on it, playing from 0, which is not the paused element.
  The paused element is resumed exactly when its position is greater than 0. (With
  any artifact or none, a paused element at position 0 is never resumed.)
\<close>

theorem play_paused_at_zero:
  assumes "reachable s" and "audioEl s = Some a" and "au_paused a"
  shows "(au_time a = 0 \<longrightarrow> audioEl (play s) \<noteq> Some (a\<lparr>au_paused := False\<rparr>))
       \<and> (\<forall>b. blob s = Some b \<and> 0 < blob_size b \<longrightarrow>
            (au_time a = 0 \<longrightarrow>
               play s = fresh_play b s
             \<and> audioEl (play s)
                 = Some \<lparr>au_url = length (urls s), au_paused = False, au_time = 0\<rparr>
             \<and> urls (play s) = urls s @ [\<lparr>url_blob = b, url_live = True\<rparr>]
             \<and> au_url a \<noteq> length (urls s))
          \<and> (audioEl (play s) = Some (a\<lparr>au_paused := False\<rparr>) \<longleftrightarrow> 0 < au_time a))"
proof -
  have "au_url a < length (urls s)"
    using reachable_consistent [OF assms(1)] assms(2) by (auto simp: consistent_def)
  then have ne: "au_url a \<noteq> length (urls s)" by simp
  have fresh: "\<lparr>au_url = length (urls s), au_paused = False, au_time = 0\<rparr>
                 \<noteq> a\<lparr>au_paused := False\<rparr>"
  proof
    assume "\<lparr>au_url = length (urls s), au_paused = False, au_time = 0\<rparr>
              = a\<lparr>au_paused := False\<rparr>"
    then have "au_url \<lparr>au_url = length (urls s), au_paused = False, au_time = 0\<rparr>
                 = au_url (a\<lparr>au_paused := False\<rparr>)"
      by (rule arg_cong)
    with ne show False by simp
  qed
  have same: "a \<noteq> a\<lparr>au_paused := False\<rparr>"
  proof
    assume "a = a\<lparr>au_paused := False\<rparr>"
    then have "au_paused a = au_paused (a\<lparr>au_paused := False\<rparr>)" by (rule arg_cong)
    with assms(3) show False by simp
  qed
  show ?thesis using assms(2,3) ne fresh same
    by (simp add: play_def fresh_play_def createObjectURL_def alert_def split: option.splits)
qed

theorem play_paused_at_zero_witness:
  "reachable (play (play done_page))
   \<and> audioEl (play (play done_page)) = Some \<lparr>au_url = 0, au_paused = True, au_time = 0\<rparr>
   \<and> blob (play (play done_page)) = Some clip \<and> 0 < blob_size clip
   \<and> audioEl (play (play (play done_page)))
       = Some \<lparr>au_url = 1, au_paused = False, au_time = 0\<rparr>
   \<and> urls (play (play (play done_page)))
       = [\<lparr>url_blob = clip, url_live = True\<rparr>, \<lparr>url_blob = clip, url_live = True\<rparr>]"
  using play_paused_at_zero [of "play (play done_page)"
      "\<lparr>au_url = 0, au_paused = True, au_time = 0\<rparr>"] reachable_paused_at_zero
  by (auto simp: done_page_def clip_def play_def fresh_play_def createObjectURL_def
      blob_size_def)

section \<open>Releasing the stream twice\<close>

lemma release_stream_idem: "release_stream (release_stream s) = release_stream s"
  by (simp add: release_stream_def split: option.splits)

lemma stop_callback_Some:
  assumes "recordRTC s = Some r" and "rtc_getBlob r s = Some b"
  shows "\<exists>s'. stop_callback s = Inr s' \<and> recordRTC s' = Some r
             \<and> rtc_getBlob r s' = Some b \<and> stream s' = None
             \<and> streams s' = (case stream s of None \<Rightarrow> streams s
                              | Some st \<Rightarrow> stop_tracks st (streams s))"
proof -
  have "rtc_getBlob r (notify Done (setUI Done ((stopVisualiser (release_stream
            (s\<lparr>blob := Some b,
                console := console s @ [LogBlobReady (blob_size b) (blob_type b)]\<rparr>)))
            \<lparr>rstate := Done\<rparr>))) = rtc_getBlob r s"
    by (simp add: rtc_getBlob_def)
  with assms show ?thesis
    by (simp add: stop_callback_blob split: option.splits)
qed

text \<open>
  Claim C9. Releasing the stream is idempotent: a second release changes nothing, a
  release with no stream held changes nothing, and when the stop callback runs a second
  time (the current encoder having a Blob) it returns normally and leaves every track
  as the first run left it.
\<close>

theorem release_stream_idempotent:
  "release_stream (release_stream s) = release_stream s
   \<and> (stream s = None \<longrightarrow> release_stream s = s)
   \<and> (\<forall>r b. recordRTC s = Some r \<and> rtc_getBlob r s = Some b \<longrightarrow>
         (\<exists>s1 s2. stop_callback s = Inr s1 \<and> stop_callback s1 = Inr s2
            \<and> stream s1 = None \<and> stream s2 = None \<and> streams s2 = streams s1))"
proof (intro conjI allI impI)
  show "release_stream (release_stream s) = release_stream s"
    by (rule release_stream_idem)
next
  assume "stream s = None"
  then show "release_stream s = s" by (simp add: release_stream_def)
next
  fix r b
  assume a: "recordRTC s = Some r \<and> rtc_getBlob r s = Some b"
  from stop_callback_Some [of s r b] a obtain s1
    where 1: "stop_callback s = Inr s1" "recordRTC s1 = Some r" "rtc_getBlob r s1 = Some b"
      "stream s1 = None"
    by blast
  from stop_callback_Some [OF 1(2,3)] 1(4) obtain s2
    where 2: "stop_callback s1 = Inr s2" "stream s2 = None" "streams s2 = streams s1"
    by auto
  from 1 2 show "\<exists>s1 s2. stop_callback s = Inr s1 \<and> stop_callback s1 = Inr s2
            \<and> stream s1 = None \<and> stream s2 = None \<and> streams s2 = streams s1"
    by blast
qed

theorem release_stream_idempotent_witness:
  "recordRTC done_page = Some 0 \<and> rtc_getBlob 0 done_page = Some clip
   \<and> stream done_page = None \<and> release_stream done_page = done_page
   \<and> streams (release_stream recording_page) = [[False]]
   \<and> release_stream (release_stream recording_page) = release_stream recording_page
   \<and> stream (release_stream recording_page) = None
   \<and> (\<exists>s1 s2. stop_callback done_page = Inr s1 \<and> stop_callback s1 = Inr s2
          \<and> stream s1 = None \<and> stream s2 = None \<and> streams s2 = streams s1)"
  using release_stream_idempotent [of done_page]
    release_stream_idempotent [of recording_page]
  by (auto simp: recording_page_def done_page_def release_stream_def stop_tracks_def
      rtc_getBlob_def)

end
